theory Spec2Isabelle
  imports Complex_Main "HOL-Library.AList" "HOL-Library.Multiset" "HOL-Library.Sublist"
begin

section \<open>Data model\<close>

text \<open>
  A browser tab as \<^verbatim>\<open>chrome.tabs.Tab\<close> presents it to the engine. The fields \<^verbatim>\<open>id\<close>,
  \<^verbatim>\<open>url\<close> and \<^verbatim>\<open>lastAccessed\<close> are optional in the source (\<open>None\<close> is
  \<^verbatim>\<open>undefined\<close>). Tab ids, counts and millisecond timestamps are integers. Strings are
  lists of characters.
\<close>

record tab =
  tab_id :: "int option"
  url :: "string option"
  active :: bool
  lastAccessed :: "int option"

datatype theme_pref = Light | Dark | System

text \<open>
  \<^verbatim>\<open>interface Settings\<close> of \<^verbatim>\<open>shared/settings.ts\<close>. The two limits are JavaScript
  numbers that reach the engine as they are stored: the options form writes whole numbers,
  the settings import accepts any number, so they are real numbers here.
\<close>

record settings =
  enabled :: bool
  idleTimeout :: real
  maxTabs :: real
  whitelist :: "string list"
  blacklist :: "string list"
  notificationsEnabled :: bool
  warningShown :: bool
  theme :: theme_pref

text \<open>
  What \<^verbatim>\<open>chrome.storage.local.get\<close> hands back: any subset of the settings keys.
\<close>

record stored_settings =
  st_enabled :: "bool option"
  st_idleTimeout :: "real option"
  st_maxTabs :: "real option"
  st_whitelist :: "string list option"
  st_blacklist :: "string list option"
  st_notificationsEnabled :: "bool option"
  st_warningShown :: "bool option"
  st_theme :: "theme_pref option"

text \<open>A rejected promise or a thrown exception of a browser API, with its message.\<close>

datatype error = ApiError string

text \<open>
  The module-level state of \<^verbatim>\<open>background/index.ts\<close>: the activity map
  (\<^verbatim>\<open>tabActivityMap\<close>) and the warning latch (\<^verbatim>\<open>warningActive\<close>).
\<close>

record engine_state =
  tabActivityMap :: "int \<rightharpoonup> int"
  warningActive :: bool

section \<open>JavaScript truthiness of the optional fields\<close>

text \<open>
  \<^verbatim>\<open>tab.id\<close> used as a condition is false for \<^verbatim>\<open>undefined\<close> and for \<^verbatim>\<open>0\<close>; the
  functions below write this test out as a case on the optional id.
\<close>

text \<open>\<^verbatim>\<open>tab.url\<close> used as a condition: \<^verbatim>\<open>undefined\<close> and the empty string are falsy.\<close>

definition truthyUrl :: "string option \<Rightarrow> bool" where
  "truthyUrl u = (case u of None \<Rightarrow> False | Some s \<Rightarrow> s \<noteq> [])"

text \<open>\<^verbatim>\<open>x || 0\<close> on an optional number.\<close>

definition orZero :: "int option \<Rightarrow> int" where
  "orZero x = (case x of None \<Rightarrow> 0 | Some n \<Rightarrow> n)"

section \<open>Activity tracker\<close>

definition resetTabActivityMap :: "engine_state \<Rightarrow> engine_state" where
  "resetTabActivityMap s = s\<lparr>tabActivityMap := Map.empty\<rparr>"

text \<open>\<^verbatim>\<open>updateTabActivity\<close>; the second argument is the value of \<^verbatim>\<open>Date.now()\<close>.\<close>

definition updateTabActivity :: "int \<Rightarrow> int \<Rightarrow> engine_state \<Rightarrow> engine_state" where
  "updateTabActivity tabId now s = s\<lparr>tabActivityMap := (tabActivityMap s)(tabId \<mapsto> now)\<rparr>"

definition getLastActivity :: "engine_state \<Rightarrow> tab \<Rightarrow> int" where
  "getLastActivity s t =
     (case tab_id t of
        None \<Rightarrow> orZero (lastAccessed t)
      | Some i \<Rightarrow>
          if i \<noteq> 0 \<and> tabActivityMap s i \<noteq> None
          then (case tabActivityMap s i of Some v \<Rightarrow> v | None \<Rightarrow> 0)
          else orZero (lastAccessed t))"

definition removeTabActivity :: "int \<Rightarrow> engine_state \<Rightarrow> engine_state" where
  "removeTabActivity tabId s = s\<lparr>tabActivityMap := (tabActivityMap s)(tabId := None)\<rparr>"

section \<open>Domain matcher\<close>

text \<open>
  \<^verbatim>\<open>getDomain\<close>. The platform's URL parser is not part of the repository; it is the
  parameter \<open>hostname\<close>, which gives the host of a URL that parses and \<open>None\<close> where
  \<^verbatim>\<open>new URL(url)\<close> throws.
\<close>

definition getDomain :: "(string \<Rightarrow> string option) \<Rightarrow> string option \<Rightarrow> string" where
  "getDomain hostname u =
     (if \<not> truthyUrl u then []
      else case u of
             None \<Rightarrow> []
           | Some s \<Rightarrow> (case hostname s of Some h \<Rightarrow> h | None \<Rightarrow> []))"

text \<open>\<^verbatim>\<open>String.prototype.endsWith\<close>.\<close>

definition endsWith :: "string \<Rightarrow> string \<Rightarrow> bool" where
  "endsWith s suf = (length suf \<le> length s \<and> drop (length s - length suf) s = suf)"

definition domainMatches :: "string \<Rightarrow> string \<Rightarrow> bool" where
  "domainMatches domain pattern =
     (if domain = [] \<or> pattern = [] then False
      else if domain = pattern then True
      else if endsWith domain (''.'' @ pattern) then True
      else False)"

text \<open>\<^verbatim>\<open>list.some((p) => domainMatches(domain, p))\<close>.\<close>

definition matchesAny :: "string \<Rightarrow> string list \<Rightarrow> bool" where
  "matchesAny domain patterns = list_ex (domainMatches domain) patterns"

section \<open>Sorting with a comparator\<close>

text \<open>
  \<^verbatim>\<open>Array.prototype.sort(cmp)\<close> is stable, and for a consistent comparator its result is
  the one stable arrangement in which no element is followed by a smaller one. Both
  comparators of the engine are consistent (they compare by a key), so the sort is
  modelled by stable insertion: an element goes in front of the first element of the
  sorted rest that it does not exceed.
\<close>

fun insertBy :: "('a \<Rightarrow> 'a \<Rightarrow> int) \<Rightarrow> 'a \<Rightarrow> 'a list \<Rightarrow> 'a list" where
  "insertBy cmp x [] = [x]"
| "insertBy cmp x (y # ys) = (if cmp x y \<le> 0 then x # y # ys else y # insertBy cmp x ys)"

fun sortBy :: "('a \<Rightarrow> 'a \<Rightarrow> int) \<Rightarrow> 'a list \<Rightarrow> 'a list" where
  "sortBy cmp [] = []"
| "sortBy cmp (x # xs) = insertBy cmp x (sortBy cmp xs)"

section \<open>Duplicate detector\<close>

text \<open>The comparator of \<^verbatim>\<open>getDuplicateTabs\<close>: active tabs first, then most recent first.\<close>

definition dupCmp :: "tab \<Rightarrow> tab \<Rightarrow> int" where
  "dupCmp a b =
     (if active a \<and> \<not> active b then - 1
      else if \<not> active a \<and> active b then 1
      else orZero (lastAccessed b) - orZero (lastAccessed a))"

text \<open>
  The first \<^verbatim>\<open>forEach\<close> of \<^verbatim>\<open>getDuplicateTabs\<close>. The \<^verbatim>\<open>Map\<close> keeps its keys in
  insertion order; it is an association list, and \<open>AList.update\<close> replaces the value of
  a present key in place and appends an absent one, as \<^verbatim>\<open>Map.prototype.set\<close> does.
\<close>

definition urlMapPush :: "(string \<times> tab list) list \<Rightarrow> tab \<Rightarrow> (string \<times> tab list) list" where
  "urlMapPush urlMap t =
     (case url t of
        None \<Rightarrow> urlMap
      | Some u \<Rightarrow>
          if u = [] then urlMap
          else
            let m = (if map_of urlMap u = None then AList.update u [] urlMap else urlMap)
            in (case map_of m u of
                  None \<Rightarrow> m
                | Some ts \<Rightarrow> AList.update u (ts @ [t]) m))"

definition buildUrlMap :: "tab list \<Rightarrow> (string \<times> tab list) list" where
  "buildUrlMap tabs = foldl urlMapPush [] tabs"

text \<open>\<^verbatim>\<open>if (tab.id && !tab.active) duplicates.push(tab.id)\<close>.\<close>

definition pushDuplicate :: "tab \<Rightarrow> int list" where
  "pushDuplicate t =
     (case tab_id t of
        None \<Rightarrow> []
      | Some i \<Rightarrow> if i \<noteq> 0 \<and> \<not> active t then [i] else [])"

text \<open>The callback of the second \<^verbatim>\<open>forEach\<close>, on one entry of the map.\<close>

definition groupDuplicates :: "tab list \<Rightarrow> int list" where
  "groupDuplicates tabsWithSameUrl =
     (if length tabsWithSameUrl > 1
      then concat (map pushDuplicate (drop 1 (sortBy dupCmp tabsWithSameUrl)))
      else [])"

definition getDuplicateTabs :: "tab list \<Rightarrow> int list" where
  "getDuplicateTabs tabs = concat (map (\<lambda>(u, ts). groupDuplicates ts) (buildUrlMap tabs))"

text \<open>
  The vocabulary of the specification of the duplicate detector: the group of a URL is
  the tabs of the snapshot with exactly that URL, in snapshot order, and its keeper is the
  tab the sort puts first.
\<close>

definition spec_urlGroup :: "string \<Rightarrow> tab list \<Rightarrow> tab list" where
  "spec_urlGroup u tabs = filter (\<lambda>t. url t = Some u) tabs"

definition keeper :: "tab list \<Rightarrow> tab" where
  "keeper g = hd (sortBy dupCmp g)"

text \<open>Tabs of the examples and tests: id, URL, active flag, \<^verbatim>\<open>lastAccessed\<close>.\<close>

definition mkTab :: "int \<Rightarrow> string \<Rightarrow> bool \<Rightarrow> int \<Rightarrow> tab" where
  "mkTab i u a l = \<lparr>tab_id = Some i, url = Some u, active = a, lastAccessed = Some l\<rparr>"

text \<open>The array already stored under a URL during the first pass, empty when there is none.\<close>

definition oldGroup :: "(string \<times> tab list) list \<Rightarrow> string \<Rightarrow> tab list" where
  "oldGroup m u = (case map_of m u of None \<Rightarrow> [] | Some ts \<Rightarrow> ts)"

section \<open>Settings\<close>

definition DEFAULT_SETTINGS :: settings where
  "DEFAULT_SETTINGS =
     \<lparr>enabled = False, idleTimeout = 30, maxTabs = 50, whitelist = [], blacklist = [],
      notificationsEnabled = True, warningShown = False, theme = System\<rparr>"

text \<open>\<^verbatim>\<open>{ ...DEFAULT_SETTINGS, ...result }\<close>: a stored key overrides the default.\<close>

definition mergeSettings :: "stored_settings \<Rightarrow> settings" where
  "mergeSettings r =
     \<lparr>enabled = (case st_enabled r of Some v \<Rightarrow> v | None \<Rightarrow> enabled DEFAULT_SETTINGS),
      idleTimeout = (case st_idleTimeout r of Some v \<Rightarrow> v | None \<Rightarrow> idleTimeout DEFAULT_SETTINGS),
      maxTabs = (case st_maxTabs r of Some v \<Rightarrow> v | None \<Rightarrow> maxTabs DEFAULT_SETTINGS),
      whitelist = (case st_whitelist r of Some v \<Rightarrow> v | None \<Rightarrow> whitelist DEFAULT_SETTINGS),
      blacklist = (case st_blacklist r of Some v \<Rightarrow> v | None \<Rightarrow> blacklist DEFAULT_SETTINGS),
      notificationsEnabled =
        (case st_notificationsEnabled r of Some v \<Rightarrow> v
         | None \<Rightarrow> notificationsEnabled DEFAULT_SETTINGS),
      warningShown =
        (case st_warningShown r of Some v \<Rightarrow> v | None \<Rightarrow> warningShown DEFAULT_SETTINGS),
      theme = (case st_theme r of Some v \<Rightarrow> v | None \<Rightarrow> theme DEFAULT_SETTINGS)\<rparr>"

section \<open>Effects of a run\<close>

text \<open>
  The two notifications of the engine: \<^verbatim>\<open>Tab Warning\<close> with the tab count and the limit,
  \<^verbatim>\<open>Tabs Cleaned\<close> with the number of closed tabs.
\<close>

datatype notification = TabWarning nat real | TabsCleaned nat

text \<open>
  What a run asks of the browser and of the console, in order:
  \<^verbatim>\<open>chrome.action.setIcon\<close> (\<open>True\<close> for the yellow icons), \<^verbatim>\<open>chrome.notifications.create\<close>,
  \<^verbatim>\<open>chrome.tabs.remove\<close>, \<^verbatim>\<open>console.error\<close> and \<^verbatim>\<open>console.log('Closed tabs:', ids)\<close>.
\<close>

datatype action =
    ActionSetIcon bool
  | NotificationsCreate notification
  | TabsRemove "int list"
  | ConsoleError error
  | ConsoleLog "int list"

text \<open>
  What the browser answers during one run: the stored settings, the tab snapshot, the
  clock, whether \<^verbatim>\<open>setIcon\<close> and \<^verbatim>\<open>tabs.remove\<close> fail, and the URL parser.
\<close>

record env =
  storageGet :: "error + stored_settings"
  tabsQuery :: "error + tab list"
  dateNow :: int
  setIcon :: "error option"
  tabsRemove :: "error option"
  hostname :: "string \<Rightarrow> string option"

text \<open>
  The result of a run: the module state after it, the requests it made, and the exception
  it ends with, if any.
\<close>

record run_result =
  final :: engine_state
  trace :: "action list"
  thrown :: "error option"

text \<open>\<^verbatim>\<open>getSettings\<close>: a failing read is logged and answered with the defaults.\<close>

definition getSettings :: "error + stored_settings \<Rightarrow> settings \<times> action list" where
  "getSettings r =
     (case r of
        Inl e \<Rightarrow> (DEFAULT_SETTINGS, [ConsoleError e])
      | Inr result \<Rightarrow> (mergeSettings result, []))"

text \<open>\<^verbatim>\<open>setWarningIcon\<close>: a failing \<^verbatim>\<open>setIcon\<close> is logged and goes no further.\<close>

definition setWarningIcon :: "env \<Rightarrow> bool \<Rightarrow> action list" where
  "setWarningIcon e enable =
     ActionSetIcon enable # (case setIcon e of Some err \<Rightarrow> [ConsoleError err] | None \<Rightarrow> [])"

section \<open>Cleanup rule engine\<close>

text \<open>
  \<^verbatim>\<open>tabsToClose\<close> is a \<^verbatim>\<open>Set<number>\<close>, which keeps insertion order: a list in which
  \<open>setAdd\<close> appends an absent element only. Its \<^verbatim>\<open>size\<close> is the length of the list.
\<close>

definition setAdd :: "int \<Rightarrow> int list \<Rightarrow> int list" where
  "setAdd i s = (if i \<in> set s then s else s @ [i])"

text \<open>The warning check of \<^verbatim>\<open>applyCleanupRules\<close>; \<open>n\<close> is \<^verbatim>\<open>allTabs.length\<close>.\<close>

definition warningCheck :: "env \<Rightarrow> settings \<Rightarrow> nat \<Rightarrow> engine_state \<Rightarrow> engine_state \<times> action list" where
  "warningCheck e cfg n s =
     (let warningThreshold = maxTabs cfg - 2 in
      if warningThreshold > 0 \<and> real n \<ge> warningThreshold then
        (if \<not> warningActive s then
           (s\<lparr>warningActive := True\<rparr>,
            setWarningIcon e True @
            (if notificationsEnabled cfg
             then [NotificationsCreate (TabWarning n (maxTabs cfg))] else []))
         else (s, []))
      else if real n < warningThreshold \<and> warningActive s then
        (s\<lparr>warningActive := False\<rparr>, setWarningIcon e False)
      else (s, []))"

text \<open>The comparator of \<^verbatim>\<open>sortedTabs\<close>: oldest first.\<close>

definition accessCmp :: "tab \<Rightarrow> tab \<Rightarrow> int" where
  "accessCmp a b = orZero (lastAccessed a) - orZero (lastAccessed b)"

text \<open>The callback of \<^verbatim>\<open>allTabs.forEach\<close>: whitelist, blacklist, idle timeout.\<close>

definition perTabRule ::
  "(string \<Rightarrow> string option) \<Rightarrow> settings \<Rightarrow> int \<Rightarrow> engine_state \<Rightarrow> int list \<Rightarrow> tab \<Rightarrow> int list" where
  "perTabRule h cfg now s tabsToClose t =
     (case tab_id t of
        None \<Rightarrow> tabsToClose
      | Some i \<Rightarrow>
          if i = 0 \<or> active t then tabsToClose
          else
            let domain = getDomain h (url t) in
            if matchesAny domain (whitelist cfg) then tabsToClose
            else if matchesAny domain (blacklist cfg) then setAdd i tabsToClose
            else
              let lastActivity = getLastActivity s t in
              if lastActivity \<noteq> 0 \<and> real_of_int (now - lastActivity) > idleTimeout cfg * 60 * 1000
              then setAdd i tabsToClose
              else tabsToClose)"

definition perTabPass ::
  "(string \<Rightarrow> string option) \<Rightarrow> settings \<Rightarrow> int \<Rightarrow> engine_state \<Rightarrow> tab list \<Rightarrow> int list \<Rightarrow> int list" where
  "perTabPass h cfg now s allTabs tabsToClose = foldl (perTabRule h cfg now s) tabsToClose allTabs"

text \<open>
  The callback of \<^verbatim>\<open>duplicates.forEach\<close>: the tab is looked up again by its id
  (\<^verbatim>\<open>allTabs.find\<close> gives the first tab with that id).
\<close>

definition duplicateRule ::
  "(string \<Rightarrow> string option) \<Rightarrow> settings \<Rightarrow> tab list \<Rightarrow> int list \<Rightarrow> int \<Rightarrow> int list" where
  "duplicateRule h cfg allTabs tabsToClose i =
     (case find (\<lambda>t. tab_id t = Some i) allTabs of
        None \<Rightarrow> tabsToClose
      | Some t \<Rightarrow>
          if \<not> active t then
            (if \<not> matchesAny (getDomain h (url t)) (whitelist cfg)
             then setAdd i tabsToClose else tabsToClose)
          else tabsToClose)"

definition duplicatePass ::
  "(string \<Rightarrow> string option) \<Rightarrow> settings \<Rightarrow> tab list \<Rightarrow> int list \<Rightarrow> int list" where
  "duplicatePass h cfg allTabs tabsToClose =
     foldl (duplicateRule h cfg allTabs) tabsToClose (getDuplicateTabs allTabs)"

text \<open>
  The \<^verbatim>\<open>for\<close> loop of the max-tab rule over \<^verbatim>\<open>sortedTabs\<close>, with its counter
  \<^verbatim>\<open>closedCount\<close>; \<^verbatim>\<open>break\<close> ends it. \<^verbatim>\<open>extraToClose\<close> is a fraction when the
  limit is one.
\<close>

fun maxTabsLoop ::
  "(string \<Rightarrow> string option) \<Rightarrow> settings \<Rightarrow> real \<Rightarrow> int \<Rightarrow> int list \<Rightarrow> tab list \<Rightarrow> int list" where
  "maxTabsLoop h cfg extraToClose closedCount tabsToClose [] = tabsToClose"
| "maxTabsLoop h cfg extraToClose closedCount tabsToClose (t # ts) =
     (if real_of_int closedCount \<ge> extraToClose then tabsToClose
      else
        (case tab_id t of
           None \<Rightarrow> maxTabsLoop h cfg extraToClose closedCount tabsToClose ts
         | Some i \<Rightarrow>
             if i \<noteq> 0 \<and> \<not> active t \<and> i \<notin> set tabsToClose then
               (if \<not> matchesAny (getDomain h (url t)) (whitelist cfg)
                then maxTabsLoop h cfg extraToClose (closedCount + 1) (setAdd i tabsToClose) ts
                else maxTabsLoop h cfg extraToClose closedCount tabsToClose ts)
             else maxTabsLoop h cfg extraToClose closedCount tabsToClose ts))"

definition maxTabsPass ::
  "(string \<Rightarrow> string option) \<Rightarrow> settings \<Rightarrow> tab list \<Rightarrow> int list \<Rightarrow> int list" where
  "maxTabsPass h cfg allTabs tabsToClose =
     (let sortedTabs = sortBy accessCmp allTabs;
          currentClosingCount = int (length tabsToClose);
          remainingCount = int (length allTabs) - currentClosingCount
      in if real_of_int remainingCount > maxTabs cfg
         then maxTabsLoop h cfg (real_of_int remainingCount - maxTabs cfg) 0 tabsToClose sortedTabs
         else tabsToClose)"

text \<open>The close-set of a run: the three passes in the order of the source.\<close>

definition computeTabsToClose ::
  "(string \<Rightarrow> string option) \<Rightarrow> settings \<Rightarrow> int \<Rightarrow> engine_state \<Rightarrow> tab list \<Rightarrow> int list" where
  "computeTabsToClose h cfg now s allTabs =
     maxTabsPass h cfg allTabs
       (duplicatePass h cfg allTabs
         (perTabPass h cfg now s allTabs []))"

text \<open>
  The \<^verbatim>\<open>try\<close> block of \<^verbatim>\<open>applyCleanupRules\<close>. The rejections of \<^verbatim>\<open>chrome.tabs.query\<close>
  and \<^verbatim>\<open>chrome.tabs.remove\<close> are its two exits by exception; what was done before
  them stays done. \<^verbatim>\<open>getSettings\<close> and \<^verbatim>\<open>setWarningIcon\<close> catch their own failures,
  and \<^verbatim>\<open>chrome.notifications.create\<close> is not awaited: the call is taken to return.
\<close>

definition cleanupBody :: "env \<Rightarrow> engine_state \<Rightarrow> run_result" where
  "cleanupBody e s =
     (let (cfg, logs) = getSettings (storageGet e) in
      if \<not> enabled cfg then \<lparr>final = s, trace = logs, thrown = None\<rparr>
      else
        (case tabsQuery e of
           Inl err \<Rightarrow> \<lparr>final = s, trace = logs, thrown = Some err\<rparr>
         | Inr allTabs \<Rightarrow>
             let (s1, warn) = warningCheck e cfg (length allTabs) s;
                 finalIdsToClose = computeTabsToClose (hostname e) cfg (dateNow e) s1 allTabs
             in if length finalIdsToClose > 0 then
                  (case tabsRemove e of
                     Some err \<Rightarrow>
                       \<lparr>final = s1, trace = logs @ warn @ [TabsRemove finalIdsToClose],
                        thrown = Some err\<rparr>
                   | None \<Rightarrow>
                       \<lparr>final = s1,
                        trace = logs @ warn @
                          [TabsRemove finalIdsToClose, ConsoleLog finalIdsToClose] @
                          (if notificationsEnabled cfg
                           then [NotificationsCreate (TabsCleaned (length finalIdsToClose))]
                           else []),
                        thrown = None\<rparr>)
                else \<lparr>final = s1, trace = logs @ warn, thrown = None\<rparr>))"

text \<open>\<^verbatim>\<open>applyCleanupRules\<close>: the \<^verbatim>\<open>catch\<close> logs the exception and the promise resolves.\<close>

definition applyCleanupRules :: "env \<Rightarrow> engine_state \<Rightarrow> run_result" where
  "applyCleanupRules e s =
     (let r = cleanupBody e s in
      case thrown r of
        None \<Rightarrow> r
      | Some err \<Rightarrow> r\<lparr>trace := trace r @ [ConsoleError err], thrown := None\<rparr>)"

text \<open>
  \<^verbatim>\<open>handleStorageChanged\<close>, the listener of \<^verbatim>\<open>chrome.storage.onChanged\<close>. \<open>changes\<close> is
  the list of the keys that \<^verbatim>\<open>changes\<close> holds: \<^verbatim>\<open>changes.maxTabs\<close> is truthy exactly when
  the key is there.
\<close>

definition handleStorageChanged ::
  "env \<Rightarrow> string list \<Rightarrow> string \<Rightarrow> engine_state \<Rightarrow> engine_state \<times> action list" where
  "handleStorageChanged e changes namespace s =
     (if namespace = ''local'' then
        (if ''maxTabs'' \<in> set changes \<or> ''enabled'' \<in> set changes
         then (s\<lparr>warningActive := False\<rparr>, setWarningIcon e False)
         else (s, []))
      else (s, []))"

text \<open>
  What the listeners of the module do to its state, one event at a time: a run of
  \<open>applyCleanupRules\<close> (alarm, install, startup, message, command), a change of the storage
  (\<^verbatim>\<open>chrome.storage.onChanged\<close>), an activity of a tab at a time (\<^verbatim>\<open>onActivated\<close>,
  \<^verbatim>\<open>onUpdated\<close>) and the removal of a tab (\<^verbatim>\<open>onRemoved\<close>). Each carries what the browser
  answers during it. The creation of a tab is an activity followed by a run.
\<close>

datatype event =
    Cleanup env
  | StorageChanged env "string list" string
  | TabActivity int int
  | TabRemoved int

fun dispatch :: "event \<Rightarrow> engine_state \<Rightarrow> engine_state \<times> action list" where
  "dispatch (Cleanup e) s = (let r = applyCleanupRules e s in (final r, trace r))"
| "dispatch (StorageChanged e changes namespace) s = handleStorageChanged e changes namespace s"
| "dispatch (TabActivity tabId now) s = (updateTabActivity tabId now s, [])"
| "dispatch (TabRemoved tabId) s = (removeTabActivity tabId s, [])"

text \<open>
  A sequence of events: the state after one event is the state before the next, and the
  requests are collected in order.
\<close>

fun runEvents :: "event list \<Rightarrow> engine_state \<Rightarrow> engine_state \<times> action list" where
  "runEvents [] s = (s, [])"
| "runEvents (ev # evs) s =
     (let (s1, acts1) = dispatch ev s;
          (s2, acts2) = runEvents evs s1
      in (s2, acts1 @ acts2))"

text \<open>
  The condition under which a run clears the warning latch: the engine is enabled, the tab
  query succeeds, and the tab count is below \<^verbatim>\<open>maxTabs - 2\<close>.
\<close>

definition countBelowThreshold :: "env \<Rightarrow> bool" where
  "countBelowThreshold e =
     (case tabsQuery e of
        Inl err \<Rightarrow> False
      | Inr allTabs \<Rightarrow>
          enabled (fst (getSettings (storageGet e))) \<and>
          real (length allTabs) < maxTabs (fst (getSettings (storageGet e))) - 2)"

text \<open>
  The events that clear a set latch: a run that sees the count below its threshold, and a
  change of \<^verbatim>\<open>maxTabs\<close> or \<^verbatim>\<open>enabled\<close> in the local storage.
\<close>

fun clearsLatch :: "event \<Rightarrow> bool" where
  "clearsLatch (Cleanup e) = countBelowThreshold e"
| "clearsLatch (StorageChanged e changes namespace) =
     (namespace = ''local'' \<and> (''maxTabs'' \<in> set changes \<or> ''enabled'' \<in> set changes))"
| "clearsLatch (TabActivity tabId now) = False"
| "clearsLatch (TabRemoved tabId) = False"

text \<open>The tab ids of a snapshot are unique, as the browser guarantees.\<close>

fun tabIds :: "tab list \<Rightarrow> int list" where
  "tabIds [] = []"
| "tabIds (t # ts) = (case tab_id t of None \<Rightarrow> tabIds ts | Some i \<Rightarrow> i # tabIds ts)"

definition uniqueIds :: "tab list \<Rightarrow> bool" where
  "uniqueIds tabs = distinct (tabIds tabs)"

section \<open>Example inputs\<close>

text \<open>
  A stand-in for the URL parser on the URLs of the examples: the host of an
  \<^verbatim>\<open>https://\<close> URL without port or credentials is what lies between the scheme and the
  next slash; anything else does not parse.
\<close>

definition exampleHostname :: "string \<Rightarrow> string option" where
  "exampleHostname u =
     (if take 8 u = ''https://'' then Some (takeWhile (\<lambda>c. c \<noteq> CHR ''/'') (drop 8 u))
      else None)"

definition emptyState :: engine_state where
  "emptyState = \<lparr>tabActivityMap = Map.empty, warningActive = False\<rparr>"

text \<open>Stored settings with the given switch, limit, lists and notification flag.\<close>

definition mkStored ::
  "bool \<Rightarrow> real \<Rightarrow> string list \<Rightarrow> string list \<Rightarrow> bool \<Rightarrow> stored_settings" where
  "mkStored en mx wl bl nt =
     \<lparr>st_enabled = Some en, st_idleTimeout = Some 30, st_maxTabs = Some mx,
      st_whitelist = Some wl, st_blacklist = Some bl, st_notificationsEnabled = Some nt,
      st_warningShown = None, st_theme = None\<rparr>"

text \<open>A run in which every browser call succeeds, at time 10000000.\<close>

definition mkEnv :: "stored_settings \<Rightarrow> tab list \<Rightarrow> env" where
  "mkEnv stored tabs =
     \<lparr>storageGet = Inr stored, tabsQuery = Inr tabs, dateNow = 10000000, setIcon = None,
      tabsRemove = None, hostname = exampleHostname\<rparr>"

text \<open>Three tabs used within the last milliseconds, on three sites, the first active.\<close>

definition threeTabs :: "tab list" where
  "threeTabs =
     [mkTab 1 ''https://a.com/'' True 9999999, mkTab 2 ''https://b.com/'' False 9999998,
      mkTab 3 ''https://c.com/'' False 9999997]"

text \<open>Four inactive tabs on four sites, used within the last milliseconds, oldest first.\<close>

definition fourTabs :: "tab list" where
  "fourTabs =
     [mkTab 1 ''https://a.com/'' False 9999991, mkTab 2 ''https://b.com/'' False 9999992,
      mkTab 3 ''https://c.com/'' False 9999993, mkTab 4 ''https://d.com/'' False 9999994]"

section \<open>Properties of the domain matcher\<close>

lemma endsWith_suffix: "endsWith s suf \<longleftrightarrow> suffix suf s"
proof
  assume "endsWith s suf"
  then have "s = take (length s - length suf) s @ suf"
    by (metis append_take_drop_id endsWith_def)
  then show "suffix suf s"
    by (metis suffixI)
next
  assume "suffix suf s"
  then obtain zs where "s = zs @ suf"
    by (auto simp: suffix_def)
  then show "endsWith s suf"
    by (simp add: endsWith_def)
qed

text \<open>
  Claim C4, as the code has it. For non-empty domain and pattern, \<open>domainMatches\<close> holds
  exactly when the domain equals the pattern or ends with a dot followed by the pattern;
  it is false as soon as one of the two is empty. \<^verbatim>\<open>fakegoogle.com\<close> does not match
  \<^verbatim>\<open>google.com\<close>, and \<^verbatim>\<open>a.b.c.example.com\<close> matches \<^verbatim>\<open>example.com\<close>.
\<close>

theorem domainMatches_iff:
  "(domainMatches D P \<longleftrightarrow> D \<noteq> [] \<and> P \<noteq> [] \<and> (D = P \<or> suffix (''.'' @ P) D))
   \<and> (domainMatches D P \<longleftrightarrow> D \<noteq> [] \<and> P \<noteq> [] \<and> (D = P \<or> endsWith D (''.'' @ P)))
   \<and> \<not> domainMatches ''fakegoogle.com'' ''google.com''
   \<and> domainMatches ''a.b.c.example.com'' ''example.com''"
proof -
  have a: "domainMatches D P \<longleftrightarrow> D \<noteq> [] \<and> P \<noteq> [] \<and> (D = P \<or> endsWith D (''.'' @ P))"
    by (simp add: domainMatches_def)
  have b: "\<not> domainMatches ''fakegoogle.com'' ''google.com''"
    by (simp add: domainMatches_def endsWith_def)
  have c: "domainMatches ''a.b.c.example.com'' ''example.com''"
    by (simp add: domainMatches_def endsWith_def)
  from a b c show ?thesis
    by (simp only: endsWith_suffix simp_thms)
qed

text \<open>
  The unrestricted equivalence of claim C4 fails where both strings are empty: they are
  equal, and the guard on empty arguments answers false.
\<close>

theorem domainMatches_empty_counterexample:
  "\<not> (domainMatches [] [] \<longleftrightarrow> ([] :: string) = [] \<or> endsWith [] (''.'' @ []))"
  by (simp add: domainMatches_def)

section \<open>Properties of the sort\<close>

lemma mset_insertBy: "mset (insertBy cmp x xs) = add_mset x (mset xs)"
  by (induction xs) auto

lemma mset_sortBy: "mset (sortBy cmp xs) = mset xs"
  by (induction xs) (auto simp: mset_insertBy)

lemma set_sortBy: "set (sortBy cmp xs) = set xs"
  by (metis mset_sortBy set_mset_mset)

lemma length_sortBy: "length (sortBy cmp xs) = length xs"
  by (metis mset_sortBy size_mset)

lemma set_insertBy: "set (insertBy cmp x xs) = insert x (set xs)"
  by (metis mset_insertBy set_mset_mset set_mset_add_mset_insert)

lemma sorted_insertBy:
  assumes tot: "\<And>a b. cmp a b \<le> 0 \<or> cmp b a \<le> 0"
    and tr: "\<And>a b c. cmp a b \<le> 0 \<Longrightarrow> cmp b c \<le> 0 \<Longrightarrow> cmp a c \<le> 0"
  shows "sorted_wrt (\<lambda>a b. cmp a b \<le> 0) xs \<Longrightarrow> sorted_wrt (\<lambda>a b. cmp a b \<le> 0) (insertBy cmp x xs)"
proof (induction xs)
  case Nil
  then show ?case by simp
next
  case (Cons y ys)
  show ?case
  proof (cases "cmp x y \<le> 0")
    case True
    with Cons.prems tr show ?thesis by auto
  next
    case False
    with tot have "cmp y x \<le> 0" by blast
    with False Cons show ?thesis by (auto simp: set_insertBy)
  qed
qed

lemma sorted_sortBy:
  assumes tot: "\<And>a b. cmp a b \<le> 0 \<or> cmp b a \<le> 0"
    and tr: "\<And>a b c. cmp a b \<le> 0 \<Longrightarrow> cmp b c \<le> 0 \<Longrightarrow> cmp a c \<le> 0"
  shows "sorted_wrt (\<lambda>a b. cmp a b \<le> 0) (sortBy cmp xs)"
  by (induction xs) (auto intro: sorted_insertBy [OF tot tr])

section \<open>Properties of the duplicate detector\<close>

lemma dupCmp_total: "dupCmp a b \<le> 0 \<or> dupCmp b a \<le> 0"
  by (auto simp: dupCmp_def)

lemma dupCmp_trans: "dupCmp a b \<le> 0 \<Longrightarrow> dupCmp b c \<le> 0 \<Longrightarrow> dupCmp a c \<le> 0"
  by (auto simp: dupCmp_def split: if_splits)

lemma keeper_first:
  assumes "g \<noteq> []"
  shows "sortBy dupCmp g = keeper g # drop 1 (sortBy dupCmp g)"
proof -
  from assms have "sortBy dupCmp g \<noteq> []"
    by (metis length_sortBy length_0_conv)
  then show ?thesis
    by (cases "sortBy dupCmp g") (simp_all add: keeper_def)
qed

lemma keeper_least:
  assumes "t \<in> set g"
  shows "dupCmp (keeper g) t \<le> 0"
proof -
  from assms have ne: "g \<noteq> []" by auto
  let ?s = "sortBy dupCmp g"
  have s: "sorted_wrt (\<lambda>a b. dupCmp a b \<le> 0) ?s"
    by (rule sorted_sortBy [OF dupCmp_total dupCmp_trans])
  have eq: "?s = keeper g # drop 1 ?s"
    by (rule keeper_first [OF ne])
  from assms have "t \<in> set ?s" by (simp add: set_sortBy)
  with eq have "t = keeper g \<or> t \<in> set (drop 1 ?s)"
    by (metis set_ConsD)
  moreover have "dupCmp (keeper g) (keeper g) \<le> 0" by (simp add: dupCmp_def)
  moreover have "\<forall>y \<in> set (drop 1 ?s). dupCmp (keeper g) y \<le> 0"
    using s eq by (metis sorted_wrt.simps(2))
  ultimately show ?thesis by blast
qed

lemma keeper_member: "g \<noteq> [] \<Longrightarrow> keeper g \<in> set g"
  by (metis keeper_first list.set_intros(1) set_sortBy)

lemma keeper_active: "t \<in> set g \<Longrightarrow> active t \<Longrightarrow> active (keeper g)"
  using keeper_least [of t g] by (auto simp: dupCmp_def split: if_splits)

lemma keeper_latest:
  "t \<in> set g \<Longrightarrow> \<not> active (keeper g) \<Longrightarrow> orZero (lastAccessed t) \<le> orZero (lastAccessed (keeper g))"
  using keeper_least [of t g] by (auto simp: dupCmp_def split: if_splits)

lemma others_mset: "g \<noteq> [] \<Longrightarrow> mset (drop 1 (sortBy dupCmp g)) = mset g - {#keeper g#}"
proof -
  assume "g \<noteq> []"
  then have "mset (keeper g # drop 1 (sortBy dupCmp g)) = mset g"
    by (metis keeper_first mset_sortBy)
  then show ?thesis by (metis add_mset_remove_trivial mset.simps(2))
qed


lemma map_of_urlMapPush:
  "map_of (urlMapPush m t) =
     (case url t of
        None \<Rightarrow> map_of m
      | Some u \<Rightarrow> if u = [] then map_of m else (map_of m)(u \<mapsto> oldGroup m u @ [t]))"
  by (auto simp: urlMapPush_def oldGroup_def Let_def update_conv' split: option.splits)

lemma distinct_urlMapPush:
  "distinct (map fst m) \<Longrightarrow> distinct (map fst (urlMapPush m t))"
  by (auto simp: urlMapPush_def Let_def distinct_update split: option.splits)

lemma distinct_foldl_urlMapPush:
  "distinct (map fst m) \<Longrightarrow> distinct (map fst (foldl urlMapPush m tabs))"
  by (induction tabs arbitrary: m) (auto simp: distinct_urlMapPush)

lemma map_of_foldl_urlMapPush:
  "map_of (foldl urlMapPush m tabs) u =
     (if u = [] \<or> spec_urlGroup u tabs = [] then map_of m u
      else Some (oldGroup m u @ spec_urlGroup u tabs))"
proof (induction tabs arbitrary: m)
  case Nil
  then show ?case by (simp add: spec_urlGroup_def)
next
  case (Cons t tabs)
  show ?case
    by (auto simp: Cons.IH map_of_urlMapPush spec_urlGroup_def oldGroup_def split: option.splits)
qed

lemma map_of_buildUrlMap:
  "map_of (buildUrlMap tabs) u =
     (if u = [] \<or> spec_urlGroup u tabs = [] then None else Some (spec_urlGroup u tabs))"
  by (simp add: buildUrlMap_def map_of_foldl_urlMapPush oldGroup_def)

lemma buildUrlMap_entries:
  "(u, ts) \<in> set (buildUrlMap tabs) \<longleftrightarrow> u \<noteq> [] \<and> ts \<noteq> [] \<and> ts = spec_urlGroup u tabs"
proof -
  have "distinct (map fst (buildUrlMap tabs))"
    by (simp add: buildUrlMap_def distinct_foldl_urlMapPush)
  then have "(u, ts) \<in> set (buildUrlMap tabs) \<longleftrightarrow> map_of (buildUrlMap tabs) u = Some ts"
    by simp
  then show ?thesis
    by (auto simp: map_of_buildUrlMap)
qed

lemma set_pushDuplicate:
  "i \<in> set (pushDuplicate t) \<longleftrightarrow> tab_id t = Some i \<and> i \<noteq> 0 \<and> \<not> active t"
  by (auto simp: pushDuplicate_def split: option.splits)

lemma set_groupDuplicates:
  "i \<in> set (groupDuplicates g) \<longleftrightarrow>
     2 \<le> length g \<and> (\<exists>t. t \<in># mset g - {#keeper g#} \<and> tab_id t = Some i \<and> i \<noteq> 0 \<and> \<not> active t)"
proof (cases "2 \<le> length g")
  case True
  then have "g \<noteq> []" by auto
  then have "set (drop 1 (sortBy dupCmp g)) = set_mset (mset g - {#keeper g#})"
    by (metis others_mset set_mset_mset)
  with True show ?thesis
    by (auto simp: groupDuplicates_def set_pushDuplicate)
next
  case False
  then show ?thesis by (simp add: groupDuplicates_def)
qed

lemma set_getDuplicateTabs:
  "i \<in> set (getDuplicateTabs tabs) \<longleftrightarrow>
     (\<exists>u. u \<noteq> [] \<and> i \<in> set (groupDuplicates (spec_urlGroup u tabs)))"
proof -
  have "i \<in> set (getDuplicateTabs tabs) \<longleftrightarrow>
          (\<exists>u ts. (u, ts) \<in> set (buildUrlMap tabs) \<and> i \<in> set (groupDuplicates ts))"
    by (auto simp: getDuplicateTabs_def)
  also have "\<dots> \<longleftrightarrow> (\<exists>u. u \<noteq> [] \<and> spec_urlGroup u tabs \<noteq> [] \<and> i \<in> set (groupDuplicates (spec_urlGroup u tabs)))"
    by (auto simp: buildUrlMap_entries)
  also have "\<dots> \<longleftrightarrow> (\<exists>u. u \<noteq> [] \<and> i \<in> set (groupDuplicates (spec_urlGroup u tabs)))"
    by (auto simp: groupDuplicates_def)
  finally show ?thesis .
qed


text \<open>
  Claim C5, as the code has it. \<open>getDuplicateTabs\<close> groups the tabs by exact URL: the
  map it builds holds, under every non-empty URL that occurs, the tabs with that URL in
  snapshot order, and nothing under the empty URL. In a non-empty group \<open>g\<close> the keeper is
  a member; it is active if some member is, and has the greatest \<^verbatim>\<open>lastAccessed\<close>
  (missing read as 0) if no member is active. An id is returned exactly when it is the
  non-zero id of an inactive member, other than the keeper, of a group of at least two
  tabs; so an id whose tabs all lack a URL is never returned. On the two examples of the
  specification the results are \<open>{1, 3}\<close> and \<open>{2}\<close>.
\<close>

theorem getDuplicateTabs_keeps_one_per_group:
  "map_of (buildUrlMap tabs) u =
     (if u = [] \<or> spec_urlGroup u tabs = [] then None else Some (spec_urlGroup u tabs))
   \<and> (g \<noteq> [] \<longrightarrow> keeper g \<in> set g)
   \<and> ((\<exists>t\<in>set g. active t) \<longrightarrow> active (keeper g))
   \<and> ((\<forall>t\<in>set g. \<not> active t) \<longrightarrow>
        (\<forall>t\<in>set g. orZero (lastAccessed t) \<le> orZero (lastAccessed (keeper g))))
   \<and> (i \<in> set (getDuplicateTabs tabs) \<longleftrightarrow>
        (\<exists>v. v \<noteq> [] \<and> 2 \<le> length (spec_urlGroup v tabs) \<and>
          (\<exists>t. t \<in># mset (spec_urlGroup v tabs) - {#keeper (spec_urlGroup v tabs)#} \<and>
               tab_id t = Some i \<and> i \<noteq> 0 \<and> \<not> active t)))
   \<and> ((\<forall>t\<in>set tabs. tab_id t = Some i \<longrightarrow> \<not> truthyUrl (url t)) \<longrightarrow>
        i \<notin> set (getDuplicateTabs tabs))
   \<and> set (getDuplicateTabs [mkTab 1 ''U'' False 100, mkTab 2 ''U'' False 200,
                              mkTab 3 ''U'' False 150]) = {1, 3}
   \<and> set (getDuplicateTabs [mkTab 1 ''U'' True 50, mkTab 2 ''U'' False 200]) = {2}"
proof -
  have groups: "map_of (buildUrlMap tabs) u =
     (if u = [] \<or> spec_urlGroup u tabs = [] then None else Some (spec_urlGroup u tabs))"
    by (rule map_of_buildUrlMap)
  have mem: "g \<noteq> [] \<longrightarrow> keeper g \<in> set g"
    by (simp add: keeper_member)
  have act: "(\<exists>t\<in>set g. active t) \<longrightarrow> active (keeper g)"
    by (blast intro: keeper_active)
  have latest: "(\<forall>t\<in>set g. \<not> active t) \<longrightarrow>
        (\<forall>t\<in>set g. orZero (lastAccessed t) \<le> orZero (lastAccessed (keeper g)))"
  proof (intro impI ballI)
    fix t
    assume none: "\<forall>t\<in>set g. \<not> active t" and t: "t \<in> set g"
    from t have "g \<noteq> []" by auto
    then have "keeper g \<in> set g" by (rule keeper_member)
    with none have "\<not> active (keeper g)" by blast
    with t show "orZero (lastAccessed t) \<le> orZero (lastAccessed (keeper g))"
      by (rule keeper_latest)
  qed
  have result: "i \<in> set (getDuplicateTabs tabs) \<longleftrightarrow>
        (\<exists>v. v \<noteq> [] \<and> 2 \<le> length (spec_urlGroup v tabs) \<and>
          (\<exists>t. t \<in># mset (spec_urlGroup v tabs) - {#keeper (spec_urlGroup v tabs)#} \<and>
               tab_id t = Some i \<and> i \<noteq> 0 \<and> \<not> active t))"
    by (simp only: set_getDuplicateTabs set_groupDuplicates)
  have nourl: "(\<forall>t\<in>set tabs. tab_id t = Some i \<longrightarrow> \<not> truthyUrl (url t)) \<longrightarrow>
        i \<notin> set (getDuplicateTabs tabs)"
  proof (intro impI notI)
    assume a: "\<forall>t\<in>set tabs. tab_id t = Some i \<longrightarrow> \<not> truthyUrl (url t)"
      and "i \<in> set (getDuplicateTabs tabs)"
    with result obtain v t where v: "v \<noteq> []"
      and t: "t \<in># mset (spec_urlGroup v tabs) - {#keeper (spec_urlGroup v tabs)#}"
      and i: "tab_id t = Some i"
      by blast
    from t have "t \<in> set (spec_urlGroup v tabs)"
      by (metis in_diffD set_mset_mset)
    then have "t \<in> set tabs" and "url t = Some v"
      by (simp_all add: spec_urlGroup_def)
    with a i v show False
      by (auto simp: truthyUrl_def)
  qed
  have ex1: "set (getDuplicateTabs [mkTab 1 ''U'' False 100, mkTab 2 ''U'' False 200,
                              mkTab 3 ''U'' False 150]) = {1, 3}"
    by (auto simp: getDuplicateTabs_def buildUrlMap_def urlMapPush_def mkTab_def
        groupDuplicates_def pushDuplicate_def dupCmp_def orZero_def)
  have ex2: "set (getDuplicateTabs [mkTab 1 ''U'' True 50, mkTab 2 ''U'' False 200]) = {2}"
    by (simp add: getDuplicateTabs_def buildUrlMap_def urlMapPush_def mkTab_def
        groupDuplicates_def pushDuplicate_def dupCmp_def orZero_def)
  from groups mem act latest result nourl ex1 ex2 show ?thesis
    by (intro conjI)
qed

text \<open>
  The theorem at the two examples: the group of the second is stored under its URL, its
  keeper is the active member and id 7 is not returned; in the first, tab 3 is not more
  recent than the keeper.
\<close>

theorem getDuplicateTabs_keeps_one_per_group_witness:
  "map_of (buildUrlMap [mkTab 1 ''U'' True 50, mkTab 2 ''U'' False 200]) ''U''
     = Some [mkTab 1 ''U'' True 50, mkTab 2 ''U'' False 200]
   \<and> keeper [mkTab 1 ''U'' True 50, mkTab 2 ''U'' False 200]
       \<in> set [mkTab 1 ''U'' True 50, mkTab 2 ''U'' False 200]
   \<and> active (keeper [mkTab 1 ''U'' True 50, mkTab 2 ''U'' False 200])
   \<and> 7 \<notin> set (getDuplicateTabs [mkTab 1 ''U'' True 50, mkTab 2 ''U'' False 200])
   \<and> orZero (lastAccessed (mkTab 3 ''U'' False 150))
       \<le> orZero (lastAccessed (keeper [mkTab 1 ''U'' False 100, mkTab 2 ''U'' False 200,
                                mkTab 3 ''U'' False 150]))"
proof -
  let ?g = "[mkTab 1 ''U'' True 50, mkTab 2 ''U'' False 200]"
  let ?h = "[mkTab 1 ''U'' False 100, mkTab 2 ''U'' False 200, mkTab 3 ''U'' False 150]"
  note G = getDuplicateTabs_keeps_one_per_group [of ?g "''U''" ?g 7]
  note H = getDuplicateTabs_keeps_one_per_group [of ?h "''U''" ?h 7]
  have g: "spec_urlGroup ''U'' ?g = ?g"
    by (simp add: spec_urlGroup_def mkTab_def)
  have ne: "?g \<noteq> []" by simp
  have ex: "\<exists>t\<in>set ?g. active t"
    by (simp add: mkTab_def)
  have no7: "\<forall>t\<in>set ?g. tab_id t = Some 7 \<longrightarrow> \<not> truthyUrl (url t)"
    by (simp add: mkTab_def)
  have none: "\<forall>t\<in>set ?h. \<not> active t"
    by (simp add: mkTab_def)
  have third: "mkTab 3 ''U'' False 150 \<in> set ?h" by simp
  from G have "map_of (buildUrlMap ?g) ''U'' =
      (if ''U'' = [] \<or> spec_urlGroup ''U'' ?g = [] then None else Some (spec_urlGroup ''U'' ?g))"
    by (rule conjunct1)
  with g have c1: "map_of (buildUrlMap ?g) ''U'' = Some ?g" by simp
  from G ne have c2: "keeper ?g \<in> set ?g" by blast
  from G ex have c3: "active (keeper ?g)" by blast
  from G no7 have c4: "7 \<notin> set (getDuplicateTabs ?g)" by blast
  from H none third have c5: "orZero (lastAccessed (mkTab 3 ''U'' False 150))
       \<le> orZero (lastAccessed (keeper ?h))" by blast
  from c1 c2 c3 c4 c5 show ?thesis by (intro conjI)
qed

text \<open>
  Claim C5 as stated, with the ids of all other members returned, fails where two active
  tabs share a URL: the group has two members, the keeper is tab 2, and the id of the
  other member, tab 1, is not returned.
\<close>

theorem getDuplicateTabs_two_active_counterexample:
  "spec_urlGroup ''U'' [mkTab 1 ''U'' True 50, mkTab 2 ''U'' True 200]
     = [mkTab 1 ''U'' True 50, mkTab 2 ''U'' True 200]
   \<and> keeper [mkTab 1 ''U'' True 50, mkTab 2 ''U'' True 200] = mkTab 2 ''U'' True 200
   \<and> tab_id (mkTab 1 ''U'' True 50) = Some 1
   \<and> 1 \<notin> set (getDuplicateTabs [mkTab 1 ''U'' True 50, mkTab 2 ''U'' True 200])"
  by (simp add: getDuplicateTabs_def buildUrlMap_def urlMapPush_def mkTab_def keeper_def
        spec_urlGroup_def groupDuplicates_def pushDuplicate_def dupCmp_def orZero_def)

section \<open>Properties of the passes\<close>

lemma set_setAdd: "set (setAdd i s) = insert i (set s)"
  by (auto simp: setAdd_def)

lemma perTabRule_sound:
  "j \<in> set (perTabRule h cfg now s cs t) \<Longrightarrow>
     j \<in> set cs \<or>
     (tab_id t = Some j \<and> \<not> active t \<and> \<not> matchesAny (getDomain h (url t)) (whitelist cfg))"
  by (auto simp: perTabRule_def Let_def set_setAdd split: option.splits if_splits)

lemma perTabPass_sound:
  "j \<in> set (perTabPass h cfg now s tabs cs) \<Longrightarrow>
     j \<in> set cs \<or>
     (\<exists>t\<in>set tabs. tab_id t = Some j \<and> \<not> active t \<and>
        \<not> matchesAny (getDomain h (url t)) (whitelist cfg))"
  unfolding perTabPass_def
proof (induction tabs arbitrary: cs)
  case Nil
  then show ?case by simp
next
  case (Cons t tabs)
  from Cons.prems have "j \<in> set (foldl (perTabRule h cfg now s) (perTabRule h cfg now s cs t) tabs)"
    by simp
  from Cons.IH [OF this] show ?case
    using perTabRule_sound [of j h cfg now s cs t] by auto
qed

lemma duplicateRule_sound:
  "j \<in> set (duplicateRule h cfg allTabs cs i) \<Longrightarrow>
     j \<in> set cs \<or>
     (\<exists>t\<in>set allTabs. tab_id t = Some j \<and> \<not> active t \<and>
        \<not> matchesAny (getDomain h (url t)) (whitelist cfg))"
proof (cases "find (\<lambda>t. tab_id t = Some i) allTabs")
  case None
  assume "j \<in> set (duplicateRule h cfg allTabs cs i)"
  with None show ?thesis by (simp add: duplicateRule_def)
next
  case (Some t)
  assume j: "j \<in> set (duplicateRule h cfg allTabs cs i)"
  from Some have "t \<in> set allTabs" and "tab_id t = Some i"
    by (auto simp: find_Some_iff)
  with j Some show ?thesis
    by (auto simp: duplicateRule_def set_setAdd split: if_splits)
qed

lemma duplicateFold_sound:
  "j \<in> set (foldl (duplicateRule h cfg allTabs) cs ds) \<Longrightarrow>
     j \<in> set cs \<or>
     (\<exists>t\<in>set allTabs. tab_id t = Some j \<and> \<not> active t \<and>
        \<not> matchesAny (getDomain h (url t)) (whitelist cfg))"
proof (induction ds arbitrary: cs)
  case Nil
  then show ?case by simp
next
  case (Cons d ds)
  from Cons.prems have "j \<in> set (foldl (duplicateRule h cfg allTabs) (duplicateRule h cfg allTabs cs d) ds)"
    by simp
  from Cons.IH [OF this] show ?case
    using duplicateRule_sound [of j h cfg allTabs cs d] by auto
qed

lemma duplicatePass_sound:
  "j \<in> set (duplicatePass h cfg allTabs cs) \<Longrightarrow>
     j \<in> set cs \<or>
     (\<exists>t\<in>set allTabs. tab_id t = Some j \<and> \<not> active t \<and>
        \<not> matchesAny (getDomain h (url t)) (whitelist cfg))"
  unfolding duplicatePass_def by (rule duplicateFold_sound)

lemma maxTabsLoop_sound:
  "j \<in> set (maxTabsLoop h cfg extra cnt cs ts) \<Longrightarrow>
     j \<in> set cs \<or>
     (\<exists>t\<in>set ts. tab_id t = Some j \<and> \<not> active t \<and>
        \<not> matchesAny (getDomain h (url t)) (whitelist cfg))"
proof (induction ts arbitrary: cnt cs)
  case Nil
  then show ?case by simp
next
  case (Cons t ts)
  show ?case
  proof (cases "real_of_int cnt \<ge> extra")
    case True
    with Cons.prems show ?thesis by simp
  next
    case False
    show ?thesis
    proof (cases "\<exists>i. tab_id t = Some i \<and> i \<noteq> 0 \<and> \<not> active t \<and> i \<notin> set cs \<and>
                    \<not> matchesAny (getDomain h (url t)) (whitelist cfg)")
      case True
      then obtain i where i: "tab_id t = Some i" "i \<noteq> 0" "\<not> active t" "i \<notin> set cs"
        "\<not> matchesAny (getDomain h (url t)) (whitelist cfg)" by blast
      with False Cons.prems have "j \<in> set (maxTabsLoop h cfg extra (cnt + 1) (setAdd i cs) ts)"
        by simp
      from Cons.IH [OF this] i show ?thesis
        by (auto simp: set_setAdd)
    next
      case skip: False
      with False Cons.prems have "j \<in> set (maxTabsLoop h cfg extra cnt cs ts)"
        by (auto split: option.splits if_splits)
      from Cons.IH [OF this] show ?thesis by auto
    qed
  qed
qed

lemma maxTabsPass_sound:
  "j \<in> set (maxTabsPass h cfg allTabs cs) \<Longrightarrow>
     j \<in> set cs \<or>
     (\<exists>t\<in>set allTabs. tab_id t = Some j \<and> \<not> active t \<and>
        \<not> matchesAny (getDomain h (url t)) (whitelist cfg))"
proof -
  assume j: "j \<in> set (maxTabsPass h cfg allTabs cs)"
  show ?thesis
  proof (cases "int (length allTabs) - int (length cs) > maxTabs cfg")
    case True
    with j have "j \<in> set (maxTabsLoop h cfg (int (length allTabs) - int (length cs) - maxTabs cfg) 0 cs
                    (sortBy accessCmp allTabs))"
      by (simp add: maxTabsPass_def Let_def)
    from maxTabsLoop_sound [OF this] show ?thesis
      by (simp add: set_sortBy)
  next
    case False
    with j show ?thesis by (simp add: maxTabsPass_def Let_def)
  qed
qed

lemma tabIds_member: "t \<in> set tabs \<Longrightarrow> tab_id t = Some i \<Longrightarrow> i \<in> set (tabIds tabs)"
  by (induction tabs) (auto split: option.splits)

lemma uniqueIds_same:
  "uniqueIds tabs \<Longrightarrow> t \<in> set tabs \<Longrightarrow> t' \<in> set tabs \<Longrightarrow>
     tab_id t = Some i \<Longrightarrow> tab_id t' = Some i \<Longrightarrow> t = t'"
  unfolding uniqueIds_def
proof (induction tabs)
  case Nil
  then show ?case by simp
next
  case (Cons x xs)
  show ?case
  proof (cases "tab_id x")
    case None
    with Cons show ?thesis by auto
  next
    case (Some k)
    with Cons.prems have d: "k \<notin> set (tabIds xs)" "distinct (tabIds xs)"
      by simp_all
    from Cons Some d tabIds_member [of _ xs i] show ?thesis by auto
  qed
qed


lemma stages_sound:
  assumes "j \<in> set (perTabPass h cfg now s tabs [])
             \<union> set (duplicatePass h cfg tabs (perTabPass h cfg now s tabs []))
             \<union> set (computeTabsToClose h cfg now s tabs)"
  shows "\<exists>t\<in>set tabs. tab_id t = Some j \<and> \<not> active t \<and>
           \<not> matchesAny (getDomain h (url t)) (whitelist cfg)"
proof -
  let ?P = "\<exists>t\<in>set tabs. tab_id t = Some j \<and> \<not> active t \<and>
           \<not> matchesAny (getDomain h (url t)) (whitelist cfg)"
  have one: "j \<in> set (perTabPass h cfg now s tabs []) \<Longrightarrow> ?P"
    using perTabPass_sound [of j h cfg now s tabs "[]"] by simp
  have two: "j \<in> set (duplicatePass h cfg tabs (perTabPass h cfg now s tabs [])) \<Longrightarrow> ?P"
    using duplicatePass_sound [of j h cfg tabs "perTabPass h cfg now s tabs []"] one by blast
  have three: "j \<in> set (computeTabsToClose h cfg now s tabs) \<Longrightarrow> ?P"
    unfolding computeTabsToClose_def
    using maxTabsPass_sound [of j h cfg tabs "duplicatePass h cfg tabs (perTabPass h cfg now s tabs [])"]
      two by blast
  from assms one two three show ?thesis by blast
qed

lemma getSettings_logs: "a \<in> set (snd (getSettings r)) \<Longrightarrow> \<exists>err. a = ConsoleError err"
  by (auto simp: getSettings_def split: sum.splits)

lemma setWarningIcon_acts:
  "a \<in> set (setWarningIcon e b) \<Longrightarrow> a = ActionSetIcon b \<or> (\<exists>err. a = ConsoleError err)"
  by (auto simp: setWarningIcon_def split: option.splits)

lemma warningCheck_acts:
  "a \<in> set (snd (warningCheck e cfg n s)) \<Longrightarrow>
     (\<exists>b. a = ActionSetIcon b) \<or> (\<exists>err. a = ConsoleError err) \<or>
     (a = NotificationsCreate (TabWarning n (maxTabs cfg)) \<and> notificationsEnabled cfg \<and>
      \<not> warningActive s \<and> 0 < maxTabs cfg - 2 \<and> maxTabs cfg - 2 \<le> real n)"
  by (auto simp: warningCheck_def Let_def dest: setWarningIcon_acts split: if_splits)

lemma warningCheck_no_remove: "TabsRemove ids \<notin> set (snd (warningCheck e cfg n s))"
  using warningCheck_acts [of "TabsRemove ids" e cfg n s] by auto

lemma getSettings_no_remove: "TabsRemove ids \<notin> set (snd (getSettings r))"
  using getSettings_logs [of "TabsRemove ids" r] by auto

lemma trace_applyCleanupRules:
  "set (trace (applyCleanupRules e s)) \<subseteq> set (trace (cleanupBody e s)) \<union> range ConsoleError"
  by (auto simp: applyCleanupRules_def Let_def split: option.splits)

lemma cleanupBody_disabled:
  "\<not> enabled (fst (getSettings (storageGet e))) \<Longrightarrow>
     cleanupBody e s = \<lparr>final = s, trace = snd (getSettings (storageGet e)), thrown = None\<rparr>"
  by (simp add: cleanupBody_def case_prod_beta)

lemma cleanupBody_query_failed:
  "enabled (fst (getSettings (storageGet e))) \<Longrightarrow> tabsQuery e = Inl err \<Longrightarrow>
     cleanupBody e s = \<lparr>final = s, trace = snd (getSettings (storageGet e)), thrown = Some err\<rparr>"
  by (simp add: cleanupBody_def case_prod_beta)

lemma cleanupBody_trace:
  assumes "enabled (fst (getSettings (storageGet e)))" and "tabsQuery e = Inr allTabs"
  shows "set (trace (cleanupBody e s)) \<subseteq>
           set (snd (getSettings (storageGet e)))
           \<union> set (snd (warningCheck e (fst (getSettings (storageGet e))) (length allTabs) s))
           \<union> {TabsRemove (computeTabsToClose (hostname e) (fst (getSettings (storageGet e)))
                  (dateNow e) (fst (warningCheck e (fst (getSettings (storageGet e))) (length allTabs) s))
                  allTabs)}
           \<union> range ConsoleLog \<union> range (\<lambda>n. NotificationsCreate (TabsCleaned n))"
  using assms
  by (auto simp: cleanupBody_def Let_def case_prod_beta split: option.splits if_splits)


lemma TabsRemove_in_trace:
  assumes "TabsRemove ids \<in> set (trace (applyCleanupRules e s))"
  shows "\<exists>allTabs s1. tabsQuery e = Inr allTabs \<and> enabled (fst (getSettings (storageGet e))) \<and>
           ids = computeTabsToClose (hostname e) (fst (getSettings (storageGet e))) (dateNow e) s1 allTabs"
proof -
  let ?cfg = "fst (getSettings (storageGet e))"
  from assms trace_applyCleanupRules [of e s]
  have body: "TabsRemove ids \<in> set (trace (cleanupBody e s))" by auto
  have en: "enabled ?cfg"
  proof (rule ccontr)
    assume "\<not> enabled ?cfg"
    with body show False
      by (simp add: cleanupBody_disabled getSettings_no_remove)
  qed
  show ?thesis
  proof (cases "tabsQuery e")
    case (Inl err)
    with en body show ?thesis
      by (simp add: cleanupBody_query_failed getSettings_no_remove)
  next
    case (Inr allTabs)
    from cleanupBody_trace [OF en Inr, of s] body
    have "ids = computeTabsToClose (hostname e) ?cfg (dateNow e)
                  (fst (warningCheck e ?cfg (length allTabs) s)) allTabs"
      using getSettings_no_remove [of ids "storageGet e"]
        warningCheck_no_remove [of ids e ?cfg "length allTabs" s]
      by auto
    with Inr en show ?thesis by blast
  qed
qed

lemma getDuplicateTabs_sound:
  assumes "i \<in> set (getDuplicateTabs tabs)"
  shows "\<exists>t\<in>set tabs. tab_id t = Some i \<and> i \<noteq> 0 \<and> \<not> active t \<and> truthyUrl (url t)"
proof -
  from assms obtain u t where u: "u \<noteq> []"
    and t: "t \<in># mset (spec_urlGroup u tabs) - {#keeper (spec_urlGroup u tabs)#}"
    and i: "tab_id t = Some i" "i \<noteq> 0" "\<not> active t"
    by (auto simp: set_getDuplicateTabs set_groupDuplicates)
  from t have "t \<in> set (spec_urlGroup u tabs)"
    by (metis in_diffD set_mset_mset)
  then have "t \<in> set tabs" and "url t = Some u"
    by (simp_all add: spec_urlGroup_def)
  with u i show ?thesis
    by (auto simp: truthyUrl_def)
qed

section \<open>Safety of the close-set\<close>

text \<open>
  Claim C1. Every id that the per-tab pass, the duplicate pass or the max-tab pass puts
  into the close-set is the id of a tab of the snapshot that is not active. With the tab
  ids of the snapshot unique, as the data model has them, the id of an active tab is in
  the result of none of the three stages, nor in the result of \<open>getDuplicateTabs\<close>, and it
  is not among the ids of any \<^verbatim>\<open>chrome.tabs.remove\<close> request of a run.
\<close>

theorem active_tab_never_closed:
  "(i \<in> set (perTabPass h cfg now s tabs [])
        \<union> set (duplicatePass h cfg tabs (perTabPass h cfg now s tabs []))
        \<union> set (computeTabsToClose h cfg now s tabs) \<longrightarrow>
      (\<exists>t'\<in>set tabs. tab_id t' = Some i \<and> \<not> active t'))
   \<and> (uniqueIds tabs \<and> t \<in> set tabs \<and> active t \<and> tab_id t = Some i \<longrightarrow>
        i \<notin> set (getDuplicateTabs tabs)
        \<and> i \<notin> set (perTabPass h cfg now s tabs [])
        \<and> i \<notin> set (duplicatePass h cfg tabs (perTabPass h cfg now s tabs []))
        \<and> i \<notin> set (computeTabsToClose h cfg now s tabs))
   \<and> (tabsQuery e = Inr tabs \<and> uniqueIds tabs \<and> t \<in> set tabs \<and> active t \<and> tab_id t = Some i
        \<and> TabsRemove ids \<in> set (trace (applyCleanupRules e st)) \<longrightarrow> i \<notin> set ids)"
proof -
  have sound: "\<And>h cfg now s. i \<in> set (perTabPass h cfg now s tabs [])
        \<union> set (duplicatePass h cfg tabs (perTabPass h cfg now s tabs []))
        \<union> set (computeTabsToClose h cfg now s tabs) \<Longrightarrow>
      \<exists>t'\<in>set tabs. tab_id t' = Some i \<and> \<not> active t'"
    using stages_sound by blast
  have uniq: "\<not> (\<exists>t'\<in>set tabs. tab_id t' = Some i \<and> \<not> active t')"
    if "uniqueIds tabs" "t \<in> set tabs" "active t" "tab_id t = Some i"
    using that uniqueIds_same [of tabs t _ i] by blast
  have dups: "i \<in> set (getDuplicateTabs tabs) \<Longrightarrow> \<exists>t'\<in>set tabs. tab_id t' = Some i \<and> \<not> active t'"
    using getDuplicateTabs_sound [of i tabs] by blast
  have a: "i \<in> set (perTabPass h cfg now s tabs [])
        \<union> set (duplicatePass h cfg tabs (perTabPass h cfg now s tabs []))
        \<union> set (computeTabsToClose h cfg now s tabs) \<longrightarrow>
      (\<exists>t'\<in>set tabs. tab_id t' = Some i \<and> \<not> active t')"
    using sound by blast
  have b: "uniqueIds tabs \<and> t \<in> set tabs \<and> active t \<and> tab_id t = Some i \<longrightarrow>
        i \<notin> set (getDuplicateTabs tabs)
        \<and> i \<notin> set (perTabPass h cfg now s tabs [])
        \<and> i \<notin> set (duplicatePass h cfg tabs (perTabPass h cfg now s tabs []))
        \<and> i \<notin> set (computeTabsToClose h cfg now s tabs)"
    using sound [of h cfg now s] uniq dups by blast
  have c: "tabsQuery e = Inr tabs \<and> uniqueIds tabs \<and> t \<in> set tabs \<and> active t \<and> tab_id t = Some i
        \<and> TabsRemove ids \<in> set (trace (applyCleanupRules e st)) \<longrightarrow> i \<notin> set ids"
  proof (intro impI notI, elim conjE)
    assume q: "tabsQuery e = Inr tabs" and u: "uniqueIds tabs" "t \<in> set tabs" "active t" "tab_id t = Some i"
      and r: "TabsRemove ids \<in> set (trace (applyCleanupRules e st))" and mem: "i \<in> set ids"
    from TabsRemove_in_trace [OF r] q obtain s1 where
      "ids = computeTabsToClose (hostname e) (fst (getSettings (storageGet e))) (dateNow e) s1 tabs"
      by auto
    with mem sound [of "hostname e" "fst (getSettings (storageGet e))" "dateNow e" s1]
    have "\<exists>t'\<in>set tabs. tab_id t' = Some i \<and> \<not> active t'" by blast
    with uniq [OF u] show False by blast
  qed
  from a b c show ?thesis by (intro conjI)
qed

text \<open>
  Claim C3. Every id that one of the three stages puts into the close-set is the id of a
  tab of the snapshot whose domain matches no whitelist pattern, whatever the blacklist
  holds. With the tab ids of the snapshot unique, the id of a tab whose domain matches a
  whitelist pattern is in the result of none of the stages and in no
  \<^verbatim>\<open>chrome.tabs.remove\<close> request of a run.
\<close>

theorem whitelisted_tab_never_closed:
  "(i \<in> set (perTabPass h cfg now s tabs [])
        \<union> set (duplicatePass h cfg tabs (perTabPass h cfg now s tabs []))
        \<union> set (computeTabsToClose h cfg now s tabs) \<longrightarrow>
      (\<exists>t'\<in>set tabs. tab_id t' = Some i \<and> \<not> matchesAny (getDomain h (url t')) (whitelist cfg)))
   \<and> (uniqueIds tabs \<and> t \<in> set tabs \<and> matchesAny (getDomain h (url t)) (whitelist cfg)
        \<and> tab_id t = Some i \<longrightarrow>
        i \<notin> set (perTabPass h cfg now s tabs [])
        \<and> i \<notin> set (duplicatePass h cfg tabs (perTabPass h cfg now s tabs []))
        \<and> i \<notin> set (computeTabsToClose h cfg now s tabs))
   \<and> (tabsQuery e = Inr tabs \<and> uniqueIds tabs \<and> t \<in> set tabs
        \<and> matchesAny (getDomain (hostname e) (url t)) (whitelist (fst (getSettings (storageGet e))))
        \<and> tab_id t = Some i
        \<and> TabsRemove ids \<in> set (trace (applyCleanupRules e st)) \<longrightarrow> i \<notin> set ids)"
proof -
  have sound: "\<And>h cfg now s. i \<in> set (perTabPass h cfg now s tabs [])
        \<union> set (duplicatePass h cfg tabs (perTabPass h cfg now s tabs []))
        \<union> set (computeTabsToClose h cfg now s tabs) \<Longrightarrow>
      \<exists>t'\<in>set tabs. tab_id t' = Some i \<and> \<not> matchesAny (getDomain h (url t')) (whitelist cfg)"
    using stages_sound by blast
  have uniq: "\<not> (\<exists>t'\<in>set tabs. tab_id t' = Some i \<and> \<not> matchesAny (getDomain h (url t')) (whitelist cfg))"
    if "uniqueIds tabs" "t \<in> set tabs" "matchesAny (getDomain h (url t)) (whitelist cfg)"
      "tab_id t = Some i" for h cfg
    using that uniqueIds_same [of tabs t _ i] by blast
  have a: "i \<in> set (perTabPass h cfg now s tabs [])
        \<union> set (duplicatePass h cfg tabs (perTabPass h cfg now s tabs []))
        \<union> set (computeTabsToClose h cfg now s tabs) \<longrightarrow>
      (\<exists>t'\<in>set tabs. tab_id t' = Some i \<and> \<not> matchesAny (getDomain h (url t')) (whitelist cfg))"
    using sound by blast
  have b: "uniqueIds tabs \<and> t \<in> set tabs \<and> matchesAny (getDomain h (url t)) (whitelist cfg)
        \<and> tab_id t = Some i \<longrightarrow>
        i \<notin> set (perTabPass h cfg now s tabs [])
        \<and> i \<notin> set (duplicatePass h cfg tabs (perTabPass h cfg now s tabs []))
        \<and> i \<notin> set (computeTabsToClose h cfg now s tabs)"
    using sound [of h cfg now s] uniq [of h cfg] by blast
  have c: "tabsQuery e = Inr tabs \<and> uniqueIds tabs \<and> t \<in> set tabs
        \<and> matchesAny (getDomain (hostname e) (url t)) (whitelist (fst (getSettings (storageGet e))))
        \<and> tab_id t = Some i
        \<and> TabsRemove ids \<in> set (trace (applyCleanupRules e st)) \<longrightarrow> i \<notin> set ids"
  proof (intro impI notI, elim conjE)
    assume q: "tabsQuery e = Inr tabs" and u: "uniqueIds tabs" "t \<in> set tabs"
      "matchesAny (getDomain (hostname e) (url t)) (whitelist (fst (getSettings (storageGet e))))"
      "tab_id t = Some i"
      and r: "TabsRemove ids \<in> set (trace (applyCleanupRules e st))" and mem: "i \<in> set ids"
    from TabsRemove_in_trace [OF r] q obtain s1 where
      "ids = computeTabsToClose (hostname e) (fst (getSettings (storageGet e))) (dateNow e) s1 tabs"
      by auto
    with mem sound [of "hostname e" "fst (getSettings (storageGet e))" "dateNow e" s1]
    have "\<exists>t'\<in>set tabs. tab_id t' = Some i
            \<and> \<not> matchesAny (getDomain (hostname e) (url t')) (whitelist (fst (getSettings (storageGet e))))"
      by blast
    with uniq [OF u] show False by blast
  qed
  from a b c show ?thesis by (intro conjI)
qed

section \<open>The theorems at concrete inputs\<close>

text \<open>The defining equations that evaluate the engine on a concrete snapshot.\<close>

lemmas engine_defs = computeTabsToClose_def perTabPass_def perTabRule_def duplicatePass_def
  duplicateRule_def maxTabsPass_def getDuplicateTabs_def buildUrlMap_def urlMapPush_def
  groupDuplicates_def pushDuplicate_def dupCmp_def accessCmp_def orZero_def mkTab_def
  getDomain_def truthyUrl_def exampleHostname_def matchesAny_def domainMatches_def endsWith_def
  getLastActivity_def setAdd_def Let_def mergeSettings_def mkStored_def DEFAULT_SETTINGS_def
  emptyState_def

lemmas run_defs = applyCleanupRules_def cleanupBody_def getSettings_def warningCheck_def
  setWarningIcon_def mkEnv_def

text \<open>
  Claim C1 at a snapshot of two tabs on a blacklisted site, the first active and long idle:
  tab 2 is closed, tab 1 is in no close-set and not in the remove request.
\<close>

theorem active_tab_never_closed_witness:
  "(\<exists>t'\<in>set [mkTab 1 ''https://bad.com/'' True 5, mkTab 2 ''https://bad.com/'' False 9000000].
       tab_id t' = Some 2 \<and> \<not> active t')
   \<and> 1 \<notin> set (getDuplicateTabs
         [mkTab 1 ''https://bad.com/'' True 5, mkTab 2 ''https://bad.com/'' False 9000000])
   \<and> 1 \<notin> set (computeTabsToClose exampleHostname
         (mergeSettings (mkStored True 1 [] [''bad.com''] False)) 10000000 emptyState
         [mkTab 1 ''https://bad.com/'' True 5, mkTab 2 ''https://bad.com/'' False 9000000])
   \<and> TabsRemove [2] \<in> set (trace (applyCleanupRules
         (mkEnv (mkStored True 1 [] [''bad.com''] False)
            [mkTab 1 ''https://bad.com/'' True 5, mkTab 2 ''https://bad.com/'' False 9000000])
         emptyState))
   \<and> (1::int) \<notin> set [2]"
proof -
  let ?tabs = "[mkTab 1 ''https://bad.com/'' True 5, mkTab 2 ''https://bad.com/'' False 9000000]"
  let ?cfg = "mergeSettings (mkStored True 1 [] [''bad.com''] False)"
  let ?e = "mkEnv (mkStored True 1 [] [''bad.com''] False) ?tabs"
  let ?t = "mkTab 1 ''https://bad.com/'' True 5"
  note A = active_tab_never_closed
    [of 2 exampleHostname ?cfg 10000000 emptyState ?tabs ?t ?e "[2]" emptyState]
  note B = active_tab_never_closed
    [of 1 exampleHostname ?cfg 10000000 emptyState ?tabs ?t ?e "[2]" emptyState]
  have res: "computeTabsToClose exampleHostname ?cfg 10000000 emptyState ?tabs = [2]"
    by (simp add: engine_defs)
  have uniq: "uniqueIds ?tabs"
    by (simp add: uniqueIds_def mkTab_def)
  have t: "?t \<in> set ?tabs" "active ?t" "tab_id ?t = Some 1"
    by (simp_all add: mkTab_def)
  have q: "tabsQuery ?e = Inr ?tabs"
    by (simp add: mkEnv_def)
  have r: "TabsRemove [2] \<in> set (trace (applyCleanupRules ?e emptyState))"
    by (simp add: engine_defs run_defs)
  from A res have c1: "\<exists>t'\<in>set ?tabs. tab_id t' = Some 2 \<and> \<not> active t'"
    by simp
  from B uniq t have c2: "1 \<notin> set (getDuplicateTabs ?tabs)"
    and c3: "1 \<notin> set (computeTabsToClose exampleHostname ?cfg 10000000 emptyState ?tabs)"
    by blast+
  from B q uniq t r have c4: "(1::int) \<notin> set [2]"
    by blast
  from c1 c2 c3 r c4 show ?thesis by (intro conjI)
qed

text \<open>
  Claim C3 with \<^verbatim>\<open>example.com\<close> on both lists and a limit of one tab: tabs 1 and 2 on
  \<^verbatim>\<open>sub.example.com\<close> are idle, duplicates of each other and the oldest, and tab 1 is in
  no close-set and not in the remove request; the idle tab 3 is closed.
\<close>

theorem whitelisted_tab_never_closed_witness:
  "(\<exists>t'\<in>set [mkTab 1 ''https://sub.example.com/'' False 5,
               mkTab 2 ''https://sub.example.com/'' False 6,
               mkTab 3 ''https://other.org/'' False 7, mkTab 4 ''https://x.org/'' True 9999999].
       tab_id t' = Some 3 \<and> \<not> matchesAny (getDomain exampleHostname (url t')) [''example.com''])
   \<and> 1 \<notin> set (computeTabsToClose exampleHostname
         (mergeSettings (mkStored True 1 [''example.com''] [''example.com''] False))
         10000000 emptyState
         [mkTab 1 ''https://sub.example.com/'' False 5,
          mkTab 2 ''https://sub.example.com/'' False 6,
          mkTab 3 ''https://other.org/'' False 7, mkTab 4 ''https://x.org/'' True 9999999])
   \<and> TabsRemove [3] \<in> set (trace (applyCleanupRules
         (mkEnv (mkStored True 1 [''example.com''] [''example.com''] False)
            [mkTab 1 ''https://sub.example.com/'' False 5,
             mkTab 2 ''https://sub.example.com/'' False 6,
             mkTab 3 ''https://other.org/'' False 7, mkTab 4 ''https://x.org/'' True 9999999])
         emptyState))
   \<and> (1::int) \<notin> set [3]"
proof -
  let ?tabs = "[mkTab 1 ''https://sub.example.com/'' False 5,
                mkTab 2 ''https://sub.example.com/'' False 6,
                mkTab 3 ''https://other.org/'' False 7, mkTab 4 ''https://x.org/'' True 9999999]"
  let ?st = "mkStored True 1 [''example.com''] [''example.com''] False"
  let ?cfg = "mergeSettings ?st"
  let ?e = "mkEnv ?st ?tabs"
  let ?t = "mkTab 1 ''https://sub.example.com/'' False 5"
  note A = whitelisted_tab_never_closed
    [of 3 exampleHostname ?cfg 10000000 emptyState ?tabs ?t ?e "[3]" emptyState]
  note B = whitelisted_tab_never_closed
    [of 1 exampleHostname ?cfg 10000000 emptyState ?tabs ?t ?e "[3]" emptyState]
  have res: "computeTabsToClose exampleHostname ?cfg 10000000 emptyState ?tabs = [3]"
    by (simp add: engine_defs)
  have wl: "whitelist ?cfg = [''example.com'']"
    by (simp add: mergeSettings_def mkStored_def)
  have uniq: "uniqueIds ?tabs"
    by (simp add: uniqueIds_def mkTab_def)
  have t: "?t \<in> set ?tabs" "tab_id ?t = Some 1"
    by (simp_all add: mkTab_def)
  have m: "matchesAny (getDomain exampleHostname (url ?t)) (whitelist ?cfg)"
    by (simp add: engine_defs)
  have e: "hostname ?e = exampleHostname" "fst (getSettings (storageGet ?e)) = ?cfg"
    "tabsQuery ?e = Inr ?tabs"
    by (simp_all add: mkEnv_def getSettings_def)
  have r: "TabsRemove [3] \<in> set (trace (applyCleanupRules ?e emptyState))"
    by (simp add: engine_defs run_defs)
  from A res have "\<exists>t'\<in>set ?tabs. tab_id t' = Some 3
        \<and> \<not> matchesAny (getDomain exampleHostname (url t')) (whitelist ?cfg)"
    by simp
  with wl have c1: "\<exists>t'\<in>set ?tabs. tab_id t' = Some 3
        \<and> \<not> matchesAny (getDomain exampleHostname (url t')) [''example.com'']"
    by simp
  from B uniq t m
  have c2: "1 \<notin> set (computeTabsToClose exampleHostname ?cfg 10000000 emptyState ?tabs)"
    by blast
  from e m have m': "matchesAny (getDomain (hostname ?e) (url ?t))
        (whitelist (fst (getSettings (storageGet ?e))))"
    by simp
  from B e(3) uniq t m' r have c3: "(1::int) \<notin> set [3]"
    by blast
  from c1 c2 r c3 show ?thesis by (intro conjI)
qed

section \<open>Activity tracker: the stored record\<close>

lemma getLastActivity_tracked:
  "tab_id t = Some i \<Longrightarrow> i \<noteq> 0 \<Longrightarrow> tabActivityMap s i = Some v \<Longrightarrow> getLastActivity s t = v"
  by (simp add: getLastActivity_def)

lemma getLastActivity_fallback:
  "(\<forall>i. tab_id t = Some i \<longrightarrow> tabActivityMap s i = None) \<Longrightarrow>
     getLastActivity s t = orZero (lastAccessed t)"
  by (auto simp: getLastActivity_def split: option.splits)

text \<open>
  Claim C6, as the code has it. For a tab whose id is not 0, \<open>getLastActivity\<close> returns
  the stored timestamp if the activity map has a record for the id, and otherwise
  \<^verbatim>\<open>lastAccessed\<close>, or 0 when that is absent; a tab without id gets \<^verbatim>\<open>lastAccessed\<close>, or
  0 when that is absent. So after \<open>updateTabActivity\<close> for a non-zero id the recorded time
  is returned, and after \<open>removeTabActivity\<close> the fallback.
\<close>

theorem getLastActivity_stored_or_fallback:
  "(tab_id t = Some i \<and> i \<noteq> 0 \<and> tabActivityMap s i = Some v \<longrightarrow> getLastActivity s t = v)
   \<and> (tab_id t = Some i \<and> i \<noteq> 0 \<and> tabActivityMap s i = None \<and> lastAccessed t = Some n \<longrightarrow>
        getLastActivity s t = n)
   \<and> (tab_id t = Some i \<and> i \<noteq> 0 \<and> tabActivityMap s i = None \<and> lastAccessed t = None \<longrightarrow>
        getLastActivity s t = 0)
   \<and> (tab_id t = None \<and> lastAccessed t = Some n \<longrightarrow> getLastActivity s t = n)
   \<and> (tab_id t = None \<and> lastAccessed t = None \<longrightarrow> getLastActivity s t = 0)
   \<and> (tab_id t = Some i \<and> i \<noteq> 0 \<longrightarrow> getLastActivity (updateTabActivity i now s) t = now)
   \<and> (tab_id t = Some i \<and> i \<noteq> 0 \<longrightarrow>
        getLastActivity (removeTabActivity i s) t = orZero (lastAccessed t))"
  by (simp add: getLastActivity_def updateTabActivity_def removeTabActivity_def orZero_def)

text \<open>
  Claim C6 with a record stored for tab 7: tab 7 gets the record, tab 8 and a tab without
  id get \<^verbatim>\<open>lastAccessed\<close> or 0, and tab 7 gets \<^verbatim>\<open>lastAccessed\<close> once its record is removed.
\<close>

theorem getLastActivity_stored_or_fallback_witness:
  "getLastActivity (updateTabActivity 7 5000 emptyState)
      \<lparr>tab_id = Some 7, url = None, active = False, lastAccessed = Some 1000\<rparr> = 5000
   \<and> getLastActivity (updateTabActivity 7 5000 emptyState)
      \<lparr>tab_id = Some 8, url = None, active = False, lastAccessed = Some 1000\<rparr> = 1000
   \<and> getLastActivity (updateTabActivity 7 5000 emptyState)
      \<lparr>tab_id = Some 8, url = None, active = False, lastAccessed = None\<rparr> = 0
   \<and> getLastActivity (updateTabActivity 7 5000 emptyState)
      \<lparr>tab_id = None, url = None, active = False, lastAccessed = Some 1000\<rparr> = 1000
   \<and> getLastActivity (updateTabActivity 7 5000 emptyState)
      \<lparr>tab_id = None, url = None, active = False, lastAccessed = None\<rparr> = 0
   \<and> getLastActivity (removeTabActivity 7 (updateTabActivity 7 5000 emptyState))
      \<lparr>tab_id = Some 7, url = None, active = False, lastAccessed = Some 1000\<rparr> = 1000"
proof -
  let ?s = "updateTabActivity 7 5000 emptyState"
  let ?t7 = "\<lparr>tab_id = Some 7, url = None, active = False, lastAccessed = Some (1000::int)\<rparr>"
  let ?t8 = "\<lparr>tab_id = Some 8, url = None, active = False, lastAccessed = Some (1000::int)\<rparr>"
  let ?t8n = "\<lparr>tab_id = Some 8, url = None, active = False, lastAccessed = (None::int option)\<rparr>"
  let ?tn = "\<lparr>tab_id = None, url = None, active = False, lastAccessed = Some (1000::int)\<rparr>"
  let ?tnn = "\<lparr>tab_id = None, url = None, active = False, lastAccessed = (None::int option)\<rparr>"
  have rec7: "tabActivityMap ?s 7 = Some 5000" and rec8: "tabActivityMap ?s 8 = None"
    by (simp_all add: updateTabActivity_def emptyState_def)
  have c1: "getLastActivity ?s ?t7 = 5000"
    using getLastActivity_stored_or_fallback [of ?t7 7 ?s 5000 1000 0] rec7 by simp
  have c2: "getLastActivity ?s ?t8 = 1000"
    using getLastActivity_stored_or_fallback [of ?t8 8 ?s 0 1000 0] rec8 by simp
  have c3: "getLastActivity ?s ?t8n = 0"
    using getLastActivity_stored_or_fallback [of ?t8n 8 ?s 0 1000 0] rec8 by simp
  have c4: "getLastActivity ?s ?tn = 1000"
    using getLastActivity_stored_or_fallback [of ?tn 8 ?s 0 1000 0] by simp
  have c5: "getLastActivity ?s ?tnn = 0"
    using getLastActivity_stored_or_fallback [of ?tnn 8 ?s 0 1000 0] by simp
  have c6: "getLastActivity (removeTabActivity 7 ?s) ?t7 = 1000"
    using getLastActivity_stored_or_fallback [of ?t7 7 ?s 0 1000 0] by (simp add: orZero_def)
  from c1 c2 c3 c4 c5 c6 show ?thesis by (intro conjI)
qed

text \<open>
  Claim C6 as stated, for every tab id under which a record can be stored, fails at id 0.
  \<open>updateTabActivity\<close> stores a record under id 0, and \<open>getLastActivity\<close> does not return
  it: the test \<^verbatim>\<open>tab.id &&\<close>, which the module uses throughout for a tab that has an id,
  takes the id 0 for a missing one, and the answer is \<^verbatim>\<open>lastAccessed\<close>, or 0 without it.
\<close>

theorem getLastActivity_ignores_record_of_id_zero:
  "tabActivityMap (updateTabActivity 0 5000 emptyState) 0 = Some 5000
   \<and> getLastActivity (updateTabActivity 0 5000 emptyState)
        \<lparr>tab_id = Some 0, url = None, active = False, lastAccessed = Some 1000\<rparr> = 1000
   \<and> getLastActivity (updateTabActivity 0 5000 emptyState)
        \<lparr>tab_id = Some 0, url = None, active = False, lastAccessed = None\<rparr> = 0"
  by (simp add: getLastActivity_def updateTabActivity_def emptyState_def orZero_def)

section \<open>The max-tab rule at limit 0\<close>

text \<open>
  Claim C2 at \<^verbatim>\<open>maxTabs = 0\<close>. One inactive tab, used a millisecond ago and on no list:
  the first two passes leave the close-set empty, the max-tab pass is not skipped and
  targets the tab, and the run requests its removal.
\<close>

theorem maxTabs_zero_is_not_unlimited:
  "maxTabs (mergeSettings (mkStored True 0 [] [] False)) = 0
   \<and> duplicatePass exampleHostname (mergeSettings (mkStored True 0 [] [] False))
        [mkTab 1 ''https://a.com/'' False 9999999]
        (perTabPass exampleHostname (mergeSettings (mkStored True 0 [] [] False)) 10000000
           emptyState [mkTab 1 ''https://a.com/'' False 9999999] []) = []
   \<and> maxTabsPass exampleHostname (mergeSettings (mkStored True 0 [] [] False))
        [mkTab 1 ''https://a.com/'' False 9999999] [] = [1]
   \<and> trace (applyCleanupRules
        (mkEnv (mkStored True 0 [] [] False) [mkTab 1 ''https://a.com/'' False 9999999])
        emptyState) = [TabsRemove [1], ConsoleLog [1]]"
  by (simp add: engine_defs run_defs)

section \<open>Gate and failures of a run\<close>

lemma applyCleanupRules_disabled:
  "\<not> enabled (fst (getSettings (storageGet e))) \<Longrightarrow>
     applyCleanupRules e s = \<lparr>final = s, trace = snd (getSettings (storageGet e)), thrown = None\<rparr>"
  by (simp add: applyCleanupRules_def cleanupBody_disabled)

lemma applyCleanupRules_query_failed:
  "enabled (fst (getSettings (storageGet e))) \<Longrightarrow> tabsQuery e = Inl err \<Longrightarrow>
     applyCleanupRules e s =
       \<lparr>final = s, trace = snd (getSettings (storageGet e)) @ [ConsoleError err], thrown = None\<rparr>"
  by (simp add: applyCleanupRules_def cleanupBody_query_failed)

text \<open>
  Claim C7. With \<^verbatim>\<open>settings.enabled\<close> false, a run leaves the module state as it was
  (the warning latch and the activity map), requests no removal of tabs, no notification
  and no change of the icon, and ends without an exception.
\<close>

theorem disabled_run_does_nothing:
  assumes "\<not> enabled (fst (getSettings (storageGet e)))"
  shows "final (applyCleanupRules e s) = s
    \<and> warningActive (final (applyCleanupRules e s)) = warningActive s
    \<and> tabActivityMap (final (applyCleanupRules e s)) = tabActivityMap s
    \<and> (\<forall>ids. TabsRemove ids \<notin> set (trace (applyCleanupRules e s)))
    \<and> (\<forall>n. NotificationsCreate n \<notin> set (trace (applyCleanupRules e s)))
    \<and> (\<forall>b. ActionSetIcon b \<notin> set (trace (applyCleanupRules e s)))
    \<and> thrown (applyCleanupRules e s) = None"
proof -
  have r: "applyCleanupRules e s =
      \<lparr>final = s, trace = snd (getSettings (storageGet e)), thrown = None\<rparr>"
    using assms by (rule applyCleanupRules_disabled)
  have logs: "\<And>a. a \<in> set (snd (getSettings (storageGet e))) \<Longrightarrow> \<exists>err. a = ConsoleError err"
    by (rule getSettings_logs)
  from r logs show ?thesis by auto
qed

text \<open>
  Claim C7 at two idle tabs on a blacklisted site with the latch set: disabled, the run
  keeps the state and does not request the removal that the same run requests when enabled.
\<close>

theorem disabled_run_does_nothing_witness:
  "final (applyCleanupRules
      (mkEnv (mkStored False 1 [] [''bad.com''] True)
         [mkTab 1 ''https://bad.com/'' False 5, mkTab 2 ''https://bad.com/'' False 6])
      (emptyState\<lparr>warningActive := True\<rparr>)) = emptyState\<lparr>warningActive := True\<rparr>
   \<and> TabsRemove [1, 2] \<notin> set (trace (applyCleanupRules
      (mkEnv (mkStored False 1 [] [''bad.com''] True)
         [mkTab 1 ''https://bad.com/'' False 5, mkTab 2 ''https://bad.com/'' False 6])
      (emptyState\<lparr>warningActive := True\<rparr>)))
   \<and> TabsRemove [1, 2] \<in> set (trace (applyCleanupRules
      (mkEnv (mkStored True 1 [] [''bad.com''] True)
         [mkTab 1 ''https://bad.com/'' False 5, mkTab 2 ''https://bad.com/'' False 6])
      (emptyState\<lparr>warningActive := True\<rparr>)))"
proof -
  let ?tabs = "[mkTab 1 ''https://bad.com/'' False 5, mkTab 2 ''https://bad.com/'' False 6]"
  let ?e = "mkEnv (mkStored False 1 [] [''bad.com''] True) ?tabs"
  let ?s = "emptyState\<lparr>warningActive := True\<rparr>"
  have off: "\<not> enabled (fst (getSettings (storageGet ?e)))"
    by (simp add: mkEnv_def getSettings_def mergeSettings_def mkStored_def)
  have on: "TabsRemove [1, 2] \<in> set (trace (applyCleanupRules
      (mkEnv (mkStored True 1 [] [''bad.com''] True) ?tabs) ?s))"
    by (simp add: engine_defs run_defs)
  from disabled_run_does_nothing [OF off, of ?s] on show ?thesis by blast
qed

text \<open>
  Claim C8. If reading the settings fails or the tab query fails, the run requests no
  removal of tabs, leaves the module state as it was, and its promise resolves: no
  exception leaves \<open>applyCleanupRules\<close>.
\<close>

theorem fetch_failure_closes_nothing:
  assumes "(\<exists>err. storageGet e = Inl err) \<or> (\<exists>err. tabsQuery e = Inl err)"
  shows "(\<forall>ids. TabsRemove ids \<notin> set (trace (applyCleanupRules e s)))
    \<and> thrown (applyCleanupRules e s) = None
    \<and> final (applyCleanupRules e s) = s"
proof -
  let ?cfg = "fst (getSettings (storageGet e))"
  have "\<not> enabled ?cfg \<or> (enabled ?cfg \<and> (\<exists>err. tabsQuery e = Inl err))"
    using assms by (auto simp: getSettings_def DEFAULT_SETTINGS_def)
  then show ?thesis
  proof
    assume "\<not> enabled ?cfg"
    then have "applyCleanupRules e s =
        \<lparr>final = s, trace = snd (getSettings (storageGet e)), thrown = None\<rparr>"
      by (rule applyCleanupRules_disabled)
    then show ?thesis
      using getSettings_no_remove [of _ "storageGet e"] by simp
  next
    assume "enabled ?cfg \<and> (\<exists>err. tabsQuery e = Inl err)"
    then obtain err where "enabled ?cfg" "tabsQuery e = Inl err" by blast
    then have "applyCleanupRules e s =
        \<lparr>final = s, trace = snd (getSettings (storageGet e)) @ [ConsoleError err], thrown = None\<rparr>"
      by (rule applyCleanupRules_query_failed)
    then show ?thesis
      using getSettings_no_remove [of _ "storageGet e"] by simp
  qed
qed

text \<open>
  Claim C8 at a failing settings read (the error is logged, nothing else happens) and at
  a failing tab query with the engine enabled.
\<close>

theorem fetch_failure_closes_nothing_witness:
  "trace (applyCleanupRules
      \<lparr>storageGet = Inl (ApiError ''storage''),
       tabsQuery = Inr [mkTab 1 ''https://bad.com/'' False 5],
       dateNow = 10000000, setIcon = None, tabsRemove = None, hostname = exampleHostname\<rparr>
      emptyState) = [ConsoleError (ApiError ''storage'')]
   \<and> TabsRemove [1] \<notin> set (trace (applyCleanupRules
      \<lparr>storageGet = Inl (ApiError ''storage''),
       tabsQuery = Inr [mkTab 1 ''https://bad.com/'' False 5],
       dateNow = 10000000, setIcon = None, tabsRemove = None, hostname = exampleHostname\<rparr>
      emptyState))
   \<and> thrown (applyCleanupRules
      \<lparr>storageGet = Inr (mkStored True 1 [] [''bad.com''] True),
       tabsQuery = Inl (ApiError ''API error''),
       dateNow = 10000000, setIcon = None, tabsRemove = None, hostname = exampleHostname\<rparr>
      emptyState) = None
   \<and> TabsRemove [1] \<notin> set (trace (applyCleanupRules
      \<lparr>storageGet = Inr (mkStored True 1 [] [''bad.com''] True),
       tabsQuery = Inl (ApiError ''API error''),
       dateNow = 10000000, setIcon = None, tabsRemove = None, hostname = exampleHostname\<rparr>
      emptyState))"
proof -
  let ?a = "\<lparr>storageGet = Inl (ApiError ''storage''),
       tabsQuery = Inr [mkTab 1 ''https://bad.com/'' False 5],
       dateNow = 10000000, setIcon = None, tabsRemove = None, hostname = exampleHostname\<rparr>"
  let ?b = "\<lparr>storageGet = Inr (mkStored True 1 [] [''bad.com''] True),
       tabsQuery = Inl (ApiError ''API error''),
       dateNow = 10000000, setIcon = None, tabsRemove = None, hostname = exampleHostname\<rparr>"
  have a: "(\<exists>err. storageGet ?a = Inl err) \<or> (\<exists>err. tabsQuery ?a = Inl err)" by simp
  have b: "(\<exists>err. storageGet ?b = Inl err) \<or> (\<exists>err. tabsQuery ?b = Inl err)" by simp
  have t: "trace (applyCleanupRules ?a emptyState) = [ConsoleError (ApiError ''storage'')]"
    by (simp add: applyCleanupRules_def cleanupBody_def getSettings_def DEFAULT_SETTINGS_def)
  from fetch_failure_closes_nothing [OF a, of emptyState]
    fetch_failure_closes_nothing [OF b, of emptyState] t
  show ?thesis by blast
qed

section \<open>The max-tab pass does not over-close\<close>

lemma accessCmp_total: "accessCmp a b \<le> 0 \<or> accessCmp b a \<le> 0"
  by (auto simp: accessCmp_def)

lemma accessCmp_trans: "accessCmp a b \<le> 0 \<Longrightarrow> accessCmp b c \<le> 0 \<Longrightarrow> accessCmp a c \<le> 0"
  by (auto simp: accessCmp_def)

text \<open>The max-tab pass walks the tabs oldest first.\<close>

lemma sortedTabs_ascending:
  "sorted_wrt (\<lambda>a b. orZero (lastAccessed a) \<le> orZero (lastAccessed b)) (sortBy accessCmp tabs)"
proof -
  have "sorted_wrt (\<lambda>a b. accessCmp a b \<le> 0) (sortBy accessCmp tabs)"
    by (rule sorted_sortBy [OF accessCmp_total accessCmp_trans])
  then show ?thesis
    by (simp add: accessCmp_def)
qed

lemma maxTabsLoop_appends:
  "\<exists>added. maxTabsLoop h cfg extra cnt cs ts = cs @ added
      \<and> int (length added) \<le> max 0 (\<lceil>extra\<rceil> - cnt)"
proof (induction ts arbitrary: cnt cs)
  case Nil
  show ?case by simp
next
  case (Cons t ts)
  show ?case
  proof (cases "real_of_int cnt \<ge> extra")
    case True
    then show ?thesis by simp
  next
    case False
    then have below: "cnt < \<lceil>extra\<rceil>"
      by (simp add: less_ceiling_iff)
    show ?thesis
    proof (cases "\<exists>i. tab_id t = Some i \<and> i \<noteq> 0 \<and> \<not> active t \<and> i \<notin> set cs \<and>
                    \<not> matchesAny (getDomain h (url t)) (whitelist cfg)")
      case True
      then obtain i where i: "tab_id t = Some i" "i \<noteq> 0" "\<not> active t" "i \<notin> set cs"
        "\<not> matchesAny (getDomain h (url t)) (whitelist cfg)" by blast
      with False have step: "maxTabsLoop h cfg extra cnt cs (t # ts)
          = maxTabsLoop h cfg extra (cnt + 1) (cs @ [i]) ts"
        by (simp add: setAdd_def)
      from Cons.IH [of "cnt + 1" "cs @ [i]"] obtain added where
        a: "maxTabsLoop h cfg extra (cnt + 1) (cs @ [i]) ts = (cs @ [i]) @ added"
        and l: "int (length added) \<le> max 0 (\<lceil>extra\<rceil> - (cnt + 1))"
        by blast
      from a step have "maxTabsLoop h cfg extra cnt cs (t # ts) = cs @ (i # added)"
        by simp
      moreover from l below have "int (length (i # added)) \<le> max 0 (\<lceil>extra\<rceil> - cnt)"
        by simp
      ultimately show ?thesis by blast
    next
      case skip: False
      with False have "maxTabsLoop h cfg extra cnt cs (t # ts)
          = maxTabsLoop h cfg extra cnt cs ts"
        by (auto split: option.splits)
      with Cons.IH [of cnt cs] show ?thesis by simp
    qed
  qed
qed

lemma maxTabsPass_appends:
  "\<exists>added. maxTabsPass h cfg tabs cs = cs @ added
      \<and> int (length added)
          \<le> max 0 \<lceil>real_of_int (int (length tabs) - int (length cs)) - maxTabs cfg\<rceil>"
proof (cases "real_of_int (int (length tabs) - int (length cs)) > maxTabs cfg")
  case True
  then have "maxTabsPass h cfg tabs cs
      = maxTabsLoop h cfg (real_of_int (int (length tabs) - int (length cs)) - maxTabs cfg) 0 cs
          (sortBy accessCmp tabs)"
    by (simp add: maxTabsPass_def Let_def)
  with maxTabsLoop_appends [of h cfg
      "real_of_int (int (length tabs) - int (length cs)) - maxTabs cfg" 0 cs "sortBy accessCmp tabs"]
  show ?thesis by simp
next
  case False
  then have "maxTabsPass h cfg tabs cs = cs"
    by (simp add: maxTabsPass_def Let_def)
  then show ?thesis by simp
qed

lemma ceiling_int_minus: "\<lceil>real_of_int z - x\<rceil> = z - \<lfloor>x\<rfloor>"
  by linarith

lemma maxTabsPass_survivors:
  assumes "real_of_int (int (length tabs) - int (length cs)) > maxTabs cfg"
  shows "\<lfloor>maxTabs cfg\<rfloor> \<le> int (length tabs) - int (length (maxTabsPass h cfg tabs cs))"
    and "int (length (maxTabsPass h cfg tabs cs)) - int (length cs)
          \<le> \<lceil>real_of_int (int (length tabs) - int (length cs)) - maxTabs cfg\<rceil>"
proof -
  let ?rem = "int (length tabs) - int (length cs)"
  from maxTabsPass_appends [of h cfg tabs cs] obtain added where
    eq: "maxTabsPass h cfg tabs cs = cs @ added"
    and le: "int (length added) \<le> max 0 \<lceil>real_of_int ?rem - maxTabs cfg\<rceil>"
    by blast
  have ceil: "\<lceil>real_of_int ?rem - maxTabs cfg\<rceil> = ?rem - \<lfloor>maxTabs cfg\<rfloor>"
    by (rule ceiling_int_minus)
  from assms have pos: "0 \<le> \<lceil>real_of_int ?rem - maxTabs cfg\<rceil>"
    by (simp add: le_ceiling_iff)
  from eq have len: "int (length (maxTabsPass h cfg tabs cs)) = int (length cs) + int (length added)"
    by simp
  from le pos len ceil
  show "\<lfloor>maxTabs cfg\<rfloor> \<le> int (length tabs) - int (length (maxTabsPass h cfg tabs cs))"
    by linarith
  from le pos len
  show "int (length (maxTabsPass h cfg tabs cs)) - int (length cs)
          \<le> \<lceil>real_of_int ?rem - maxTabs cfg\<rceil>"
    by linarith
qed

text \<open>
  Claim C10, as the code has it. The max-tab pass only appends to the close-set it
  receives, and at most \<^verbatim>\<open>remainingCount - maxTabs\<close> rounded up to a whole number of
  ids (none when that is not positive). So whenever
  \<^verbatim>\<open>remainingCount = allTabs.length - tabsToClose.size\<close> exceeds \<^verbatim>\<open>maxTabs\<close> on entry,
  the number of tabs minus the size of the close-set after the pass is at least
  \<^verbatim>\<open>maxTabs\<close> rounded down, hence more than \<^verbatim>\<open>maxTabs - 1\<close>. With a whole number as
  \<^verbatim>\<open>maxTabs\<close> the pass adds at most \<^verbatim>\<open>remainingCount - maxTabs\<close> ids and at least
  \<^verbatim>\<open>maxTabs\<close> tabs survive. The same holds for the close-set of a whole run.
\<close>

theorem max_tab_pass_never_over_closes:
  "(\<exists>added. maxTabsPass h cfg tabs cs = cs @ added
       \<and> int (length added)
           \<le> max 0 \<lceil>real_of_int (int (length tabs) - int (length cs)) - maxTabs cfg\<rceil>)
   \<and> (real_of_int (int (length tabs) - int (length cs)) > maxTabs cfg \<longrightarrow>
        int (length (maxTabsPass h cfg tabs cs)) - int (length cs)
          \<le> \<lceil>real_of_int (int (length tabs) - int (length cs)) - maxTabs cfg\<rceil>
        \<and> \<lfloor>maxTabs cfg\<rfloor> \<le> int (length tabs) - int (length (maxTabsPass h cfg tabs cs))
        \<and> maxTabs cfg - 1
            < real_of_int (int (length tabs) - int (length (maxTabsPass h cfg tabs cs))))
   \<and> (maxTabs cfg = real_of_int k
        \<and> real_of_int (int (length tabs) - int (length cs)) > maxTabs cfg \<longrightarrow>
        int (length (maxTabsPass h cfg tabs cs)) - int (length cs)
          \<le> int (length tabs) - int (length cs) - k
        \<and> maxTabs cfg
            \<le> real_of_int (int (length tabs) - int (length (maxTabsPass h cfg tabs cs))))
   \<and> (real_of_int (int (length tabs)
          - int (length (duplicatePass h cfg tabs (perTabPass h cfg now s tabs [])))) > maxTabs cfg \<longrightarrow>
        \<lfloor>maxTabs cfg\<rfloor> \<le> int (length tabs) - int (length (computeTabsToClose h cfg now s tabs))
        \<and> (maxTabs cfg = real_of_int k \<longrightarrow>
             maxTabs cfg
               \<le> real_of_int (int (length tabs) - int (length (computeTabsToClose h cfg now s tabs)))))"
proof -
  have a: "\<exists>added. maxTabsPass h cfg tabs cs = cs @ added
       \<and> int (length added)
           \<le> max 0 \<lceil>real_of_int (int (length tabs) - int (length cs)) - maxTabs cfg\<rceil>"
    by (rule maxTabsPass_appends)
  have b: "int (length (maxTabsPass h cfg tabs cs)) - int (length cs)
          \<le> \<lceil>real_of_int (int (length tabs) - int (length cs)) - maxTabs cfg\<rceil>
        \<and> \<lfloor>maxTabs cfg\<rfloor> \<le> int (length tabs) - int (length (maxTabsPass h cfg tabs cs))
        \<and> maxTabs cfg - 1
            < real_of_int (int (length tabs) - int (length (maxTabsPass h cfg tabs cs)))"
    if over: "real_of_int (int (length tabs) - int (length cs)) > maxTabs cfg" for cs
  proof -
    note sv = maxTabsPass_survivors [OF over, of h]
    have "maxTabs cfg - 1 < real_of_int \<lfloor>maxTabs cfg\<rfloor>"
      by linarith
    also from sv(1)
    have "\<dots> \<le> real_of_int (int (length tabs) - int (length (maxTabsPass h cfg tabs cs)))"
      by (simp only: of_int_le_iff)
    finally show ?thesis using sv by blast
  qed
  have c: "int (length (maxTabsPass h cfg tabs cs)) - int (length cs)
          \<le> int (length tabs) - int (length cs) - k
        \<and> maxTabs cfg
            \<le> real_of_int (int (length tabs) - int (length (maxTabsPass h cfg tabs cs)))"
    if whole: "maxTabs cfg = real_of_int k"
      and over: "real_of_int (int (length tabs) - int (length cs)) > maxTabs cfg" for cs
  proof -
    note sv = maxTabsPass_survivors [OF over, of h]
    from whole have fl: "\<lfloor>maxTabs cfg\<rfloor> = k" by simp
    from fl have cl: "\<lceil>real_of_int (int (length tabs) - int (length cs)) - maxTabs cfg\<rceil>
        = int (length tabs) - int (length cs) - k"
      by (simp only: ceiling_int_minus)
    from sv(1) fl have "k \<le> int (length tabs) - int (length (maxTabsPass h cfg tabs cs))"
      by simp
    then have "real_of_int k
        \<le> real_of_int (int (length tabs) - int (length (maxTabsPass h cfg tabs cs)))"
      by (simp only: of_int_le_iff)
    with whole sv(2) cl show ?thesis by simp
  qed
  from a b [of cs] c [of cs]
    b [of "duplicatePass h cfg tabs (perTabPass h cfg now s tabs [])"]
    c [of "duplicatePass h cfg tabs (perTabPass h cfg now s tabs [])"]
  show ?thesis
    unfolding computeTabsToClose_def by blast
qed

text \<open>
  Claim C10 at five tabs and a limit of two: one duplicate is in the close-set on entry,
  four tabs remain, the pass adds the two oldest tabs that are eligible, and two survive.
  At four tabs and a limit of two and a half, two tabs survive.
\<close>

theorem max_tab_pass_never_over_closes_witness:
  "computeTabsToClose exampleHostname (mergeSettings (mkStored True 2 [''example.com''] [] False))
      10000000 emptyState
      [mkTab 1 ''https://a.com/'' False 9999999, mkTab 2 ''https://b.com/'' True 9999999,
       mkTab 3 ''https://sub.example.com/'' False 9999990, mkTab 4 ''https://b.com/'' False 9999991,
       mkTab 5 ''https://c.com/'' False 9999998] = [4, 5, 1]
   \<and> maxTabs (mergeSettings (mkStored True 2 [''example.com''] [] False))
       \<le> real_of_int (int (length [mkTab 1 ''https://a.com/'' False 9999999,
             mkTab 2 ''https://b.com/'' True 9999999,
             mkTab 3 ''https://sub.example.com/'' False 9999990,
             mkTab 4 ''https://b.com/'' False 9999991, mkTab 5 ''https://c.com/'' False 9999998])
         - int (length (computeTabsToClose exampleHostname
             (mergeSettings (mkStored True 2 [''example.com''] [] False)) 10000000 emptyState
             [mkTab 1 ''https://a.com/'' False 9999999, mkTab 2 ''https://b.com/'' True 9999999,
              mkTab 3 ''https://sub.example.com/'' False 9999990,
              mkTab 4 ''https://b.com/'' False 9999991, mkTab 5 ''https://c.com/'' False 9999998])))
   \<and> \<lfloor>maxTabs (mergeSettings (mkStored True (5 / 2) [] [] False))\<rfloor>
       \<le> int (length fourTabs)
         - int (length (computeTabsToClose exampleHostname
             (mergeSettings (mkStored True (5 / 2) [] [] False)) 10000000 emptyState fourTabs))"
proof -
  let ?tabs = "[mkTab 1 ''https://a.com/'' False 9999999, mkTab 2 ''https://b.com/'' True 9999999,
       mkTab 3 ''https://sub.example.com/'' False 9999990, mkTab 4 ''https://b.com/'' False 9999991,
       mkTab 5 ''https://c.com/'' False 9999998]"
  let ?cfg = "mergeSettings (mkStored True 2 [''example.com''] [] False)"
  let ?half = "mergeSettings (mkStored True (5 / 2) [] [] False)"
  have res: "computeTabsToClose exampleHostname ?cfg 10000000 emptyState ?tabs = [4, 5, 1]"
    by (simp add: engine_defs)
  have entry: "duplicatePass exampleHostname ?cfg ?tabs
      (perTabPass exampleHostname ?cfg 10000000 emptyState ?tabs []) = [4]"
    by (simp add: engine_defs)
  have mx: "maxTabs ?cfg = real_of_int 2"
    by (simp add: mergeSettings_def mkStored_def)
  from entry mx have over: "real_of_int (int (length ?tabs)
      - int (length (duplicatePass exampleHostname ?cfg ?tabs
          (perTabPass exampleHostname ?cfg 10000000 emptyState ?tabs [])))) > maxTabs ?cfg"
    by simp
  from max_tab_pass_never_over_closes [of exampleHostname ?cfg ?tabs "[4]" 2 10000000 emptyState]
    over mx
  have whole: "maxTabs ?cfg \<le> real_of_int (int (length ?tabs)
      - int (length (computeTabsToClose exampleHostname ?cfg 10000000 emptyState ?tabs)))"
    by blast
  have entry2: "duplicatePass exampleHostname ?half fourTabs
      (perTabPass exampleHostname ?half 10000000 emptyState fourTabs []) = []"
    by (simp add: engine_defs fourTabs_def)
  have mx2: "maxTabs ?half = 5 / 2"
    by (simp add: mergeSettings_def mkStored_def)
  have len: "length fourTabs = 4"
    by (simp add: fourTabs_def)
  from entry2 mx2 len have over2: "real_of_int (int (length fourTabs)
      - int (length (duplicatePass exampleHostname ?half fourTabs
          (perTabPass exampleHostname ?half 10000000 emptyState fourTabs [])))) > maxTabs ?half"
    by simp
  from max_tab_pass_never_over_closes [of exampleHostname ?half fourTabs "[]" 2 10000000 emptyState]
    over2
  have frac: "\<lfloor>maxTabs ?half\<rfloor> \<le> int (length fourTabs)
      - int (length (computeTabsToClose exampleHostname ?half 10000000 emptyState fourTabs))"
    by blast
  from res whole frac show ?thesis by (intro conjI)
qed

text \<open>
  Claim C10 as stated fails at a limit that is not a whole number, as the settings import
  can store it. With \<^verbatim>\<open>maxTabs = 2.5\<close> and four eligible tabs the close-set is empty on
  entry, \<^verbatim>\<open>extraToClose\<close> is 1.5, the loop adds two ids, which is more than 1.5, and two
  tabs survive, which is fewer than 2.5.
\<close>

theorem max_tab_pass_fractional_limit_counterexample:
  "maxTabs (mergeSettings (mkStored True (5 / 2) [] [] False)) = 5 / 2
   \<and> duplicatePass exampleHostname (mergeSettings (mkStored True (5 / 2) [] [] False)) fourTabs
        (perTabPass exampleHostname (mergeSettings (mkStored True (5 / 2) [] [] False))
           10000000 emptyState fourTabs []) = []
   \<and> computeTabsToClose exampleHostname (mergeSettings (mkStored True (5 / 2) [] [] False))
        10000000 emptyState fourTabs = [1, 2]
   \<and> real (length (computeTabsToClose exampleHostname
          (mergeSettings (mkStored True (5 / 2) [] [] False)) 10000000 emptyState fourTabs))
       - real (length (duplicatePass exampleHostname
          (mergeSettings (mkStored True (5 / 2) [] [] False)) fourTabs
          (perTabPass exampleHostname (mergeSettings (mkStored True (5 / 2) [] [] False))
             10000000 emptyState fourTabs [])))
       > real (length fourTabs)
         - real (length (duplicatePass exampleHostname
            (mergeSettings (mkStored True (5 / 2) [] [] False)) fourTabs
            (perTabPass exampleHostname (mergeSettings (mkStored True (5 / 2) [] [] False))
               10000000 emptyState fourTabs [])))
         - maxTabs (mergeSettings (mkStored True (5 / 2) [] [] False))
   \<and> real (length fourTabs)
       - real (length (computeTabsToClose exampleHostname
          (mergeSettings (mkStored True (5 / 2) [] [] False)) 10000000 emptyState fourTabs))
       < maxTabs (mergeSettings (mkStored True (5 / 2) [] [] False))"
  by (simp add: engine_defs fourTabs_def)

section \<open>The warning latch\<close>

lemma final_applyCleanupRules:
  "final (applyCleanupRules e s) =
     (if enabled (fst (getSettings (storageGet e))) then
        (case tabsQuery e of
           Inl err \<Rightarrow> s
         | Inr allTabs \<Rightarrow> fst (warningCheck e (fst (getSettings (storageGet e))) (length allTabs) s))
      else s)"
  by (auto simp: applyCleanupRules_def cleanupBody_def Let_def case_prod_beta
      split: sum.splits option.splits)

lemma warningCheck_latch:
  "warningActive s \<Longrightarrow>
     warningActive (fst (warningCheck e cfg n s)) \<longleftrightarrow> \<not> real n < maxTabs cfg - 2"
  by (auto simp: warningCheck_def Let_def)

lemma warningCheck_raises:
  "NotificationsCreate (TabWarning k m) \<in> set (snd (warningCheck e cfg n s)) \<Longrightarrow>
     warningActive (fst (warningCheck e cfg n s))"
  by (auto simp: warningCheck_def Let_def setWarningIcon_def split: if_splits option.splits)

lemma TabWarning_in_trace:
  assumes "NotificationsCreate (TabWarning n m) \<in> set (trace (applyCleanupRules e s))"
  shows "notificationsEnabled (fst (getSettings (storageGet e))) \<and> \<not> warningActive s
    \<and> warningActive (final (applyCleanupRules e s))
    \<and> 0 < maxTabs (fst (getSettings (storageGet e))) - 2
    \<and> maxTabs (fst (getSettings (storageGet e))) - 2 \<le> real n
    \<and> m = maxTabs (fst (getSettings (storageGet e)))
    \<and> (\<exists>allTabs. tabsQuery e = Inr allTabs \<and> n = length allTabs)"
proof -
  let ?cfg = "fst (getSettings (storageGet e))"
  let ?a = "NotificationsCreate (TabWarning n m)"
  from assms trace_applyCleanupRules [of e s]
  have body: "?a \<in> set (trace (cleanupBody e s))" by auto
  have nolog: "?a \<notin> set (snd (getSettings (storageGet e)))"
    using getSettings_logs [of ?a "storageGet e"] by auto
  have en: "enabled ?cfg"
  proof (rule ccontr)
    assume "\<not> enabled ?cfg"
    with body nolog show False
      by (simp add: cleanupBody_disabled)
  qed
  show ?thesis
  proof (cases "tabsQuery e")
    case (Inl err)
    with en body nolog show ?thesis
      by (simp add: cleanupBody_query_failed)
  next
    case (Inr allTabs)
    from cleanupBody_trace [OF en Inr, of s] body nolog
    have w: "?a \<in> set (snd (warningCheck e ?cfg (length allTabs) s))"
      by auto
    from warningCheck_acts [OF w]
    have d: "n = length allTabs" "m = maxTabs ?cfg" "notificationsEnabled ?cfg" "\<not> warningActive s"
      "0 < maxTabs ?cfg - 2" "maxTabs ?cfg - 2 \<le> real (length allTabs)"
      by auto
    from w have "warningActive (fst (warningCheck e ?cfg (length allTabs) s))"
      by (rule warningCheck_raises)
    with en Inr have "warningActive (final (applyCleanupRules e s))"
      by (simp add: final_applyCleanupRules)
    with d Inr show ?thesis by simp
  qed
qed

lemma latched_run:
  assumes "warningActive s"
  shows "(\<forall>n m. NotificationsCreate (TabWarning n m) \<notin> set (trace (applyCleanupRules e s)))
    \<and> (warningActive (final (applyCleanupRules e s)) \<longleftrightarrow> \<not> countBelowThreshold e)"
proof -
  have "\<forall>n m. NotificationsCreate (TabWarning n m) \<notin> set (trace (applyCleanupRules e s))"
    using assms TabWarning_in_trace [of _ _ e s] by blast
  moreover have "warningActive (final (applyCleanupRules e s)) \<longleftrightarrow> \<not> countBelowThreshold e"
    using assms
    by (auto simp: final_applyCleanupRules countBelowThreshold_def warningCheck_latch
        split: sum.splits)
  ultimately show ?thesis by blast
qed


lemma handleStorageChanged_acts:
  "a \<in> set (snd (handleStorageChanged e changes namespace s)) \<Longrightarrow>
     a = ActionSetIcon False \<or> (\<exists>err. a = ConsoleError err)"
  by (auto simp: handleStorageChanged_def dest: setWarningIcon_acts split: if_splits)

lemma latched_event:
  assumes "warningActive s" and "\<not> clearsLatch ev"
  shows "warningActive (fst (dispatch ev s))
    \<and> (\<forall>n m. NotificationsCreate (TabWarning n m) \<notin> set (snd (dispatch ev s)))"
proof (cases ev)
  case (Cleanup e)
  with assms latched_run [of s e] show ?thesis
    by (simp add: Let_def)
next
  case (StorageChanged e changes namespace)
  with assms have "handleStorageChanged e changes namespace s = (s, [])"
    by (auto simp: handleStorageChanged_def)
  with StorageChanged assms(1) show ?thesis by simp
next
  case (TabActivity tabId now)
  with assms(1) show ?thesis by (simp add: updateTabActivity_def)
next
  case (TabRemoved tabId)
  with assms(1) show ?thesis by (simp add: removeTabActivity_def)
qed

lemma clearing_event:
  assumes "warningActive s" and "clearsLatch ev"
  shows "\<not> warningActive (fst (dispatch ev s))"
proof (cases ev)
  case (Cleanup e)
  with assms latched_run [of s e] show ?thesis
    by (simp add: Let_def)
next
  case (StorageChanged e changes namespace)
  with assms show ?thesis
    by (auto simp: handleStorageChanged_def)
next
  case (TabActivity tabId now)
  with assms(2) show ?thesis by simp
next
  case (TabRemoved tabId)
  with assms(2) show ?thesis by simp
qed

lemma latched_events:
  "warningActive s \<Longrightarrow> \<forall>ev\<in>set evs. \<not> clearsLatch ev \<Longrightarrow>
     warningActive (fst (runEvents evs s))
     \<and> (\<forall>n m. NotificationsCreate (TabWarning n m) \<notin> set (snd (runEvents evs s)))"
proof (induction evs arbitrary: s)
  case Nil
  then show ?case by simp
next
  case (Cons ev evs)
  from latched_event [OF Cons.prems(1), of ev] Cons.prems(2)
  have now: "\<forall>n m. NotificationsCreate (TabWarning n m) \<notin> set (snd (dispatch ev s))"
    and next_state: "warningActive (fst (dispatch ev s))"
    by auto
  from Cons.IH [OF next_state] Cons.prems(2)
  have rest: "warningActive (fst (runEvents evs (fst (dispatch ev s))))"
    "\<forall>n m. NotificationsCreate (TabWarning n m)
        \<notin> set (snd (runEvents evs (fst (dispatch ev s))))"
    by auto
  from now rest show ?case
    by (simp add: Let_def case_prod_beta)
qed

text \<open>
  Claim C9, as the code has it. A run that starts with the latch set raises no
  approaching-limit notification, and the latch is still set after it unless the run sees
  the tab count below the threshold \<^verbatim>\<open>maxTabs - 2\<close>. In a sequence of events (runs,
  storage changes, tab activity and removal) that starts with the latch set and holds
  neither a run that sees the count below its threshold nor a change of \<^verbatim>\<open>maxTabs\<close> or
  \<^verbatim>\<open>enabled\<close> in the local storage, the latch stays set and no approaching-limit
  notification is raised at all; each of those two events clears a set latch. A run
  raises the notification only with notifications enabled, the latch clear before, the
  threshold positive and reached; it leaves the latch set. The settings a run reads may
  differ from one run to the next (a failed read gives the defaults); a change of the
  stored limit reaches the module as a storage change.
\<close>

theorem warning_latch_hysteresis:
  "(warningActive s \<longrightarrow>
      (\<forall>n m. NotificationsCreate (TabWarning n m) \<notin> set (trace (applyCleanupRules e s)))
      \<and> (warningActive (final (applyCleanupRules e s)) \<longleftrightarrow> \<not> countBelowThreshold e))
   \<and> (warningActive s \<and> (\<forall>ev'\<in>set evs. \<not> clearsLatch ev') \<longrightarrow>
        warningActive (fst (runEvents evs s))
        \<and> (\<forall>n m. NotificationsCreate (TabWarning n m) \<notin> set (snd (runEvents evs s))))
   \<and> (warningActive s \<and> clearsLatch ev \<longrightarrow> \<not> warningActive (fst (dispatch ev s)))
   \<and> (NotificationsCreate (TabWarning k l) \<in> set (trace (applyCleanupRules e s)) \<longrightarrow>
        notificationsEnabled (fst (getSettings (storageGet e)))
        \<and> \<not> warningActive s
        \<and> warningActive (final (applyCleanupRules e s))
        \<and> 0 < maxTabs (fst (getSettings (storageGet e))) - 2
        \<and> maxTabs (fst (getSettings (storageGet e))) - 2 \<le> real k)"
  using latched_run [of s e] latched_events [of s evs] clearing_event [of s ev]
    TabWarning_in_trace [of k l e s]
  by blast

text \<open>
  Claim C9 at three tabs and a limit of five: the first run raises the notification and
  sets the latch; a run, a tab activity, a change of the theme and another run keep the
  latch and raise nothing; a change of \<^verbatim>\<open>maxTabs\<close> clears the latch.
\<close>

theorem warning_latch_hysteresis_witness:
  "NotificationsCreate (TabWarning 3 5) \<in> set (trace (applyCleanupRules (mkEnv (mkStored True 5 [] [] True) threeTabs) emptyState))
   \<and> notificationsEnabled (fst (getSettings (storageGet (mkEnv (mkStored True 5 [] [] True) threeTabs))))
   \<and> warningActive (final (applyCleanupRules (mkEnv (mkStored True 5 [] [] True) threeTabs) emptyState))
   \<and> warningActive (fst (runEvents
        [Cleanup (mkEnv (mkStored True 5 [] [] True) threeTabs), TabActivity 2 10000001,
         StorageChanged (mkEnv (mkStored True 5 [] [] True) threeTabs) [''theme''] ''local'',
         Cleanup (mkEnv (mkStored True 5 [] [] True) threeTabs)]
        (final (applyCleanupRules (mkEnv (mkStored True 5 [] [] True) threeTabs) emptyState))))
   \<and> NotificationsCreate (TabWarning 3 5) \<notin> set (snd (runEvents
        [Cleanup (mkEnv (mkStored True 5 [] [] True) threeTabs), TabActivity 2 10000001,
         StorageChanged (mkEnv (mkStored True 5 [] [] True) threeTabs) [''theme''] ''local'',
         Cleanup (mkEnv (mkStored True 5 [] [] True) threeTabs)]
        (final (applyCleanupRules (mkEnv (mkStored True 5 [] [] True) threeTabs) emptyState))))
   \<and> \<not> warningActive (fst (dispatch
        (StorageChanged (mkEnv (mkStored True 5 [] [] True) threeTabs) [''maxTabs''] ''local'')
        (final (applyCleanupRules (mkEnv (mkStored True 5 [] [] True) threeTabs) emptyState))))"
proof -
  let ?e = "mkEnv (mkStored True 5 [] [] True) threeTabs"
  let ?s1 = "final (applyCleanupRules ?e emptyState)"
  let ?evs = "[Cleanup ?e, TabActivity 2 10000001, StorageChanged ?e [''theme''] ''local'', Cleanup ?e]"
  let ?ev = "StorageChanged ?e [''maxTabs''] ''local''"
  have raised: "NotificationsCreate (TabWarning 3 5) \<in> set (trace (applyCleanupRules ?e emptyState))"
    by (simp add: engine_defs run_defs threeTabs_def)
  have below: "\<not> countBelowThreshold ?e"
    by (simp add: countBelowThreshold_def mkEnv_def getSettings_def mergeSettings_def mkStored_def
        threeTabs_def)
  then have stay: "\<forall>ev'\<in>set ?evs. \<not> clearsLatch ev'"
    by simp
  have clr: "clearsLatch ?ev" by simp
  from warning_latch_hysteresis [of emptyState ?e "[]" ?ev 3 5] raised
  have first: "notificationsEnabled (fst (getSettings (storageGet ?e)))" "warningActive ?s1"
    by blast+
  from warning_latch_hysteresis [of ?s1 ?e ?evs ?ev 3 5] first(2) stay clr
  have later: "warningActive (fst (runEvents ?evs ?s1))"
    "NotificationsCreate (TabWarning 3 5) \<notin> set (snd (runEvents ?evs ?s1))"
    "\<not> warningActive (fst (dispatch ?ev ?s1))"
    by blast+
  from raised first later show ?thesis by (intro conjI)
qed

text \<open>
  Claim C9 as stated, with the drop of the tab count as the only way to a further
  notification, fails where the limit is changed between two runs: three tabs, a run at
  limit five, the storage change that sets the limit to four, a run at limit four. Both
  runs raise the notification, and in neither is the tab count below the threshold.
\<close>

theorem warning_repeats_after_limit_change_counterexample:
  "snd (runEvents
      [Cleanup (mkEnv (mkStored True 5 [] [] True) threeTabs),
       StorageChanged (mkEnv (mkStored True 4 [] [] True) threeTabs) [''maxTabs''] ''local'',
       Cleanup (mkEnv (mkStored True 4 [] [] True) threeTabs)]
      emptyState)
     = [ActionSetIcon True, NotificationsCreate (TabWarning 3 5), ActionSetIcon False,
        ActionSetIcon True, NotificationsCreate (TabWarning 3 4)]
   \<and> \<not> countBelowThreshold (mkEnv (mkStored True 5 [] [] True) threeTabs)
   \<and> \<not> countBelowThreshold (mkEnv (mkStored True 4 [] [] True) threeTabs)"
  by (simp add: engine_defs run_defs threeTabs_def countBelowThreshold_def
      handleStorageChanged_def)

end
